theory Spec2Isabelle
  imports Main "HOL-Library.Char_ord" "HOL-Library.List_Lexorder"
begin

section \<open>Strings, bytes and paths\<close>

text \<open>
  The ingestion scripts \<^verbatim>\<open>scripts/cnpj_ingest_duckdb.py\<close> (v1) and
  \<^verbatim>\<open>scripts/cnpj_ingest_duckdb_v2.py\<close> (v2) work on file names, URLs and raw
  bytes. A byte is an 8-bit \<^typ>\<open>char\<close>; a text is a \<^typ>\<open>string\<close> of 8-bit characters
  (Latin-1, the encoding the scripts read their inputs in), so decoding bytes as
  \<^verbatim>\<open>latin1\<close> is the identity. Code points beyond Latin-1 appear only as the result
  of UTF-8 decoding and are natural numbers.
\<close>

type_synonym bytes = "char list"
type_synonym path = string

text \<open>\<^verbatim>\<open>str.lower()\<close> on Latin-1 text: A-Z and the accented capitals
  U+00C0..U+00DE (without the multiplication sign U+00D7) move up by 32. In both ranges
  bit 5 of the code is clear, so adding 32 sets that bit.\<close>

definition is_upper :: "char \<Rightarrow> bool" where
  "is_upper c =
     (let n = (of_char c :: nat)
      in (65 \<le> n \<and> n \<le> 90) \<or> (192 \<le> n \<and> n \<le> 222 \<and> n \<noteq> 215))"

definition lower_char :: "char \<Rightarrow> char" where
  "lower_char c =
     (if is_upper c
      then Char (digit0 c) (digit1 c) (digit2 c) (digit3 c) (digit4 c) True (digit6 c) (digit7 c)
      else c)"

definition lower :: "string \<Rightarrow> string" where
  "lower s = map lower_char s"

text \<open>\<^verbatim>\<open>s.endswith(suf)\<close>, \<^verbatim>\<open>s.startswith(p)\<close> and \<^verbatim>\<open>sub in s\<close>.\<close>

definition endswith :: "string \<Rightarrow> string \<Rightarrow> bool" where
  "endswith s suf = (length suf \<le> length s \<and> drop (length s - length suf) s = suf)"

definition startswith :: "string \<Rightarrow> string \<Rightarrow> bool" where
  "startswith s p = (take (length p) s = p)"

fun contains :: "string \<Rightarrow> string \<Rightarrow> bool" where
  "contains [] sub = (sub = [])"
| "contains (c # cs) sub = (startswith (c # cs) sub \<or> contains cs sub)"

text \<open>\<^verbatim>\<open>s.split(sep)\<close> for a one-character separator: never empty, keeps empty parts.\<close>

fun split_on :: "char \<Rightarrow> string \<Rightarrow> string list" where
  "split_on sep [] = [[]]"
| "split_on sep (c # cs) =
     (if c = sep then [] # split_on sep cs
      else (case split_on sep cs of
              [] \<Rightarrow> [[c]]
            | p # ps \<Rightarrow> (c # p) # ps))"

text \<open>\<^verbatim>\<open>s.rstrip(ch)\<close> for one character.\<close>

definition rstrip_char :: "char \<Rightarrow> string \<Rightarrow> string" where
  "rstrip_char ch s = rev (dropWhile (\<lambda>c. c = ch) (rev s))"

text \<open>
  Paths are strings in normal form. \<^verbatim>\<open>dir / name\<close> appends one component;
  joining the empty component leaves the directory as it is.
\<close>

definition pjoin :: "path \<Rightarrow> string \<Rightarrow> path" where
  "pjoin d c = (if c = [] then d else d @ ''/'' @ c)"

text \<open>The components \<^verbatim>\<open>pathlib\<close> keeps of a relative or absolute name: it drops empty
  components and \<^verbatim>\<open>.\<close>, and keeps \<^verbatim>\<open>..\<close>.\<close>

definition path_parts :: "string \<Rightarrow> string list" where
  "path_parts m = filter (\<lambda>c. c \<noteq> [] \<and> c \<noteq> ''.'') (split_on (CHR ''/'') m)"

text \<open>\<^verbatim>\<open>Path(m).name\<close>: the last component, empty when there is none.\<close>

definition path_name :: "string \<Rightarrow> string" where
  "path_name m = (case rev (path_parts m) of [] \<Rightarrow> [] | c # _ \<Rightarrow> c)"

text \<open>\<^verbatim>\<open>str.rfind('.')\<close> as an option.\<close>

fun rfind_dot :: "string \<Rightarrow> nat option" where
  "rfind_dot [] = None"
| "rfind_dot (c # cs) =
     (case rfind_dot cs of
        Some i \<Rightarrow> Some (Suc i)
      | None \<Rightarrow> (if c = CHR ''.'' then Some 0 else None))"

text \<open>\<^verbatim>\<open>PurePath.suffix\<close> and \<^verbatim>\<open>PurePath.stem\<close> of a file name: the last dot splits
  the name unless it is the first or the last character.\<close>

definition name_suffix :: "string \<Rightarrow> string" where
  "name_suffix n =
     (case rfind_dot n of
        Some i \<Rightarrow> (if 0 < i \<and> i < length n - 1 then drop i n else [])
      | None \<Rightarrow> [])"

definition name_stem :: "string \<Rightarrow> string" where
  "name_stem n =
     (case rfind_dot n of
        Some i \<Rightarrow> (if 0 < i \<and> i < length n - 1 then take i n else n)
      | None \<Rightarrow> n)"

text \<open>\<^verbatim>\<open>p.with_suffix(p.suffix + ext)\<close>, the only way the scripts call
  \<^verbatim>\<open>with_suffix\<close>: the old suffix is replaced by itself followed by \<^verbatim>\<open>ext\<close>, which
  appends \<^verbatim>\<open>ext\<close> to the path.\<close>

definition add_suffix :: "path \<Rightarrow> string \<Rightarrow> path" where
  "add_suffix p ext = p @ ext"

text \<open>Decimal digits of a natural number, and the format \<^verbatim>\<open>{i:02d}\<close>.\<close>

definition digit_char :: "nat \<Rightarrow> char" where
  "digit_char d = ''0123456789'' ! d"

fun str_nat :: "nat \<Rightarrow> string" where
  "str_nat n = (if n < 10 then [digit_char n] else str_nat (n div 10) @ [digit_char (n mod 10)])"

declare str_nat.simps [simp del]

definition fmt_02d :: "nat \<Rightarrow> string" where
  "fmt_02d i = (if i < 10 then CHR ''0'' # str_nat i else str_nat i)"


section \<open>Schema resolution (v2)\<close>

text \<open>The project's column dictionaries \<^verbatim>\<open>COLS\<close>; \<^verbatim>\<open>COLS.get(base)\<close> is \<open>None\<close> for
  any other key.\<close>

definition COLS :: "string \<Rightarrow> string list option" where
  "COLS base =
    (if base = ''cnaes'' then Some [''codigo'', ''descricao'']
     else if base = ''empresas'' then Some
       [''cnpj_basico'', ''razao_social'', ''natureza_juridica'', ''qualificacao_responsavel'',
        ''capital_social_empresa'', ''porte_empresa'', ''ente_federativo_responsavel'']
     else if base = ''estabelecimentos'' then Some
       [''cnpj_basico'', ''cnpj_ordem'', ''cnpj_dv'', ''identificador_matriz_filial'',
        ''nome_fantasia'', ''situacao_cadastral'', ''data_situacao_cadastral'',
        ''motivo_situacao_cadastral'', ''nome_cidade_exterior'', ''pais'',
        ''data_inicio_atividade'', ''cnae_fiscal_principal'', ''cnae_fiscal_secundaria'',
        ''tipo_logradouro'', ''logradouro'', ''numero'', ''complemento'', ''bairro'', ''cep'',
        ''uf'', ''municipio'', ''ddd_1'', ''telefone_1'', ''ddd_2'', ''telefone_2'', ''ddd_fax'',
        ''fax'', ''correio_eletronico'', ''situacao_especial'', ''data_situacao_especial'']
     else if base = ''municipios'' then Some [''codigo'', ''descricao'']
     else if base = ''simples'' then Some
       [''cnpj_basico'', ''opcao_simples'', ''data_opcao_simples'', ''data_exclusao_simples'',
        ''opcao_mei'', ''data_opcao_mei'', ''data_exclusao_mei'']
     else if base = ''motivos'' then Some [''codigo'', ''descricao'']
     else if base = ''naturezas'' then Some [''codigo'', ''descricao'']
     else if base = ''socios'' then Some
       [''cnpj_basico'', ''identificador_socio'', ''nome_socio_ou_razao_social'',
        ''cnpj_cpf_socio'', ''qualificacao_socio'', ''data_entrada_sociedade'', ''pais'',
        ''representante_legal'', ''nome_representante'', ''qualificacao_representante_legal'',
        ''faixa_etaria'']
     else if base = ''paises'' then Some [''codigo'', ''descricao'']
     else if base = ''qualificacoes'' then Some [''codigo'', ''descricao'']
     else None)"

text \<open>\<^verbatim>\<open>DETECT_MAP\<close>: the keywords that identify a dataset in a file name, in the
  order the source lists them. The accented keywords are written with their Latin-1
  codes (i-acute 0xED, o-acute 0xF3, c-cedilla 0xE7, o-tilde 0xF5).\<close>

definition DETECT_MAP :: "(string \<times> string list) list" where
  "DETECT_MAP =
    [(''empresas'', [''empresas'', ''emprecsv'']),
     (''estabelecimentos'', [''estabele'', ''estabcsv'']),
     (''simples'', [''simples'']),
     (''cnaes'', [''cnaes'', ''cnae'']),
     (''municipios'', [''municipios'', ''munic'' @ [CHR 0xED] @ ''pios'', ''municipio'', ''municcsv'']),
     (''naturezas'', [''naturezas'', ''natureza'', ''natjucsv'']),
     (''motivos'', [''motivos'', ''motivo'', ''moticsv'']),
     (''socios'', [''socios'', ''s'' @ [CHR 0xF3] @ ''cios'', ''sociccsv'', ''socioscsv'', ''sociocsv'']),
     (''paises'', [''paises'', ''pa'' @ [CHR 0xED] @ ''ses'', ''pais'']),
     (''qualificacoes'', [''qualificacoes'', ''qualifica'' @ [CHR 0xE7, CHR 0xF5] @ ''es'', ''qualif'', ''qualscsv''])]"

fun detect_in :: "(string \<times> string list) list \<Rightarrow> string \<Rightarrow> string" where
  "detect_in [] n = []"
| "detect_in ((base, keys) # rest) n =
     (if list_ex (\<lambda>k. contains n k) keys then base else detect_in rest n)"

definition detect_base_from_filename :: "path \<Rightarrow> string" where
  "detect_base_from_filename p = detect_in DETECT_MAP (lower (path_name p))"

text \<open>\<^verbatim>\<open>_first_line\<close>: \<^verbatim>\<open>f.readline(1024 * 1024)\<close> on the bytes of the file, decoded as
  Latin-1. The line ends after the first newline or after 1048576 bytes.\<close>

fun readline :: "bytes \<Rightarrow> bytes" where
  "readline [] = []"
| "readline (c # cs) = (if c = CHR 0x0A then [c] else c # readline cs)"

definition first_line :: "bytes \<Rightarrow> string" where
  "first_line content = take 1048576 (readline content)"

text \<open>\<^verbatim>\<open>looks_like_header\<close>: the line has the delimiter and a character of the class
  \<^verbatim>\<open>[A-Za-z\<close>U+00C0\<^verbatim>\<open>-\<close>U+00FF\<^verbatim>\<open>_]\<close>.\<close>

definition CSV_DELIM :: char where
  "CSV_DELIM = CHR '';''"

definition is_label_char :: "char \<Rightarrow> bool" where
  "is_label_char c =
     (let n = (of_char c :: nat)
      in (65 \<le> n \<and> n \<le> 90) \<or> (97 \<le> n \<and> n \<le> 122) \<or> (192 \<le> n \<and> n \<le> 255) \<or> n = 95)"

definition looks_like_header :: "string \<Rightarrow> bool" where
  "looks_like_header line = (CSV_DELIM \<in> set line \<and> list_ex is_label_char line)"

text \<open>The three messages of \<^verbatim>\<open>choose_column_names\<close>, by their template.\<close>

datatype header_msg =
    OkDictionary string nat
  | OkHeader
  | WarnAuto nat

text \<open>\<^verbatim>\<open>choose_column_names\<close>. The result \<open>None\<close> tells the caller to let the reader
  take the names from the header row. \<^verbatim>\<open>target and ...\<close> is false for a missing key and
  for an empty list.\<close>

definition auto_names :: "nat \<Rightarrow> string list" where
  "auto_names ncols = map (\<lambda>i. ''col_'' @ fmt_02d i) [0..<ncols]"

definition choose_column_names :: "string \<Rightarrow> nat \<Rightarrow> bool \<Rightarrow> string list option \<times> header_msg" where
  "choose_column_names base ncols_detected header_present =
     (case COLS base of
        Some target \<Rightarrow>
          if target \<noteq> [] \<and> length target = ncols_detected
          then (Some target, OkDictionary base (length target))
          else if header_present then (None, OkHeader)
          else (Some (auto_names ncols_detected), WarnAuto ncols_detected)
      | None \<Rightarrow>
          if header_present then (None, OkHeader)
          else (Some (auto_names ncols_detected), WarnAuto ncols_detected))"


section \<open>Errors and library behaviour\<close>

text \<open>Every exception the scripts raise or let through is a value of \<open>error\<close>.\<close>

datatype error =
    NoZipFound                \<comment> \<open>\<^verbatim>\<open>RuntimeError("Nenhum .zip encontrado ...")\<close>\<close>
  | EmptyArchive              \<comment> \<open>\<^verbatim>\<open>RuntimeError("Nenhum arquivo dentro de ...")\<close>\<close>
  | ConnectionError           \<comment> \<open>\<^verbatim>\<open>requests\<close> could not complete the transfer\<close>
  | HTTPError nat             \<comment> \<open>\<^verbatim>\<open>raise_for_status()\<close> on a 4xx or 5xx answer\<close>
  | FileNotFound path         \<comment> \<open>a file or a move source that does not exist\<close>
  | BadZipFile                \<comment> \<open>\<^verbatim>\<open>zipfile.BadZipFile\<close>\<close>
  | EmptyDataError            \<comment> \<open>\<^verbatim>\<open>pandas.errors.EmptyDataError\<close>: no columns to parse\<close>
  | SchemaMismatch            \<comment> \<open>\<^verbatim>\<open>ValueError\<close> of \<^verbatim>\<open>ParquetWriter.write_table\<close>\<close>
  | InvalidURL                \<comment> \<open>\<^verbatim>\<open>ValueError\<close> of \<^verbatim>\<open>urllib.parse.urljoin\<close>\<close>
  | RegexError                \<comment> \<open>\<^verbatim>\<open>re.error\<close>: the filter is no regular expression\<close>

text \<open>A cell of a data frame read with \<^verbatim>\<open>dtype=str\<close>: a text, or missing.\<close>

type_synonym cell = "string option"

text \<open>One HTTP answer as \<^verbatim>\<open>requests\<close> sees it: no answer at all, or a status with the
  bytes of the body that arrived and whether the connection broke before the body's end.\<close>

datatype http_result =
    NoConnection
  | Response nat bytes bool

text \<open>One member of a zip archive as \<^verbatim>\<open>zipfile\<close> lists it: its name, the uncompressed size
  its header declares, its content, and whether its CRC check passes.\<close>

record zip_member =
  m_name :: string
  m_file_size :: nat
  m_data :: bytes
  m_crc_ok :: bool

text \<open>
  What the scripts leave to their libraries and to the remote server is a parameter of
  the model, collected in one record:
  \<^item> \<open>http_get url rng\<close>: the server's answer to a GET of \<open>url\<close>, with the header
    \<^verbatim>\<open>Range: bytes=k-\<close> when \<open>rng = Some k\<close>;
  \<^item> \<open>response_text\<close>: \<^verbatim>\<open>r.text\<close>, the body decoded by \<^verbatim>\<open>requests\<close>;
  \<^item> \<open>urljoin base href\<close>: \<^verbatim>\<open>urllib.parse.urljoin(base, href)\<close>, \<open>None\<close> when it raises
    \<^verbatim>\<open>ValueError\<close> (as it does on a reference like \<^verbatim>\<open>//[x.zip\<close>, whose host part opens a
    bracket that it does not close);
  \<^item> \<open>read_zip\<close>: the members \<^verbatim>\<open>zipfile.ZipFile\<close> finds in a file, \<open>None\<close> when it
    raises \<^verbatim>\<open>BadZipFile\<close>;
  \<^item> \<open>csv_records\<close>: the records the CSV tokenizer of \<^verbatim>\<open>pandas\<close> (python engine,
    delimiter \<^verbatim>\<open>;\<close>, quote character \<^verbatim>\<open>"\<close>, blank lines skipped) finds in a file,
    each a list of fields;
  \<^item> \<open>header_labels\<close>: the column labels \<^verbatim>\<open>pandas\<close> makes of a header row;
  \<^item> \<open>dedup_name names j\<close>: the name \<^verbatim>\<open>dedup_names(names)\<close> of \<^verbatim>\<open>pandas\<close> has at position
    \<open>j\<close>;
  \<^item> \<open>is_na\<close>: the field texts \<^verbatim>\<open>pandas\<close> reads as a missing value;
  \<^item> \<open>infer_type\<close>: the Arrow type \<^verbatim>\<open>pa.Table.from_pandas\<close> gives a column, as a number;
  \<^item> \<open>parquet_bytes\<close>: the bytes of a Parquet file with a given schema and rows;
  \<^item> \<open>re_search pat s\<close>: whether \<^verbatim>\<open>re.search(pat, s, flags=re.IGNORECASE)\<close> finds a
    match, \<open>None\<close> when it raises \<^verbatim>\<open>re.error\<close>.
\<close>

record env =
  http_get :: "string \<Rightarrow> nat option \<Rightarrow> http_result"
  response_text :: "bytes \<Rightarrow> string"
  urljoin :: "string \<Rightarrow> string \<Rightarrow> string option"
  read_zip :: "bytes \<Rightarrow> zip_member list option"
  csv_records :: "bytes \<Rightarrow> string list list"
  header_labels :: "string list \<Rightarrow> string list"
  dedup_name :: "string list \<Rightarrow> nat \<Rightarrow> string"
  is_na :: "string \<Rightarrow> bool"
  infer_type :: "cell list \<Rightarrow> nat"
  parquet_bytes :: "(string \<times> nat) list \<times> cell list list \<Rightarrow> bytes"
  re_search :: "string \<Rightarrow> string \<Rightarrow> bool option"


section \<open>Reading delimited text with pandas\<close>

text \<open>
  \<^verbatim>\<open>pd.read_csv\<close> as the scripts call it: \<^verbatim>\<open>engine="python"\<close>, \<^verbatim>\<open>dtype=str\<close>,
  \<^verbatim>\<open>on_bad_lines="warn"\<close>. The model follows the python reader of the library.
  \<^item> With \<^verbatim>\<open>header=0\<close> the first record gives the labels and is not data; with
    \<^verbatim>\<open>header=None\<close> every record is data, named by \<^verbatim>\<open>names\<close> or, without names, by
    position.
  \<^item> The reader then looks at the next two records for index columns that the labels do
    not name. With a header row: when the second of them has as many fields as the first
    and the labels together, the first is a row of index names and not data, and every
    record starts with that many index cells. Otherwise, when the first of them has more
    fields than there are labels, the surplus is an implicit index: every record starts
    with that many index cells.
  \<^item> A bad line is a record with more fields than there are columns, index columns
    included: it is dropped and reported by one warning. A record with fewer fields is
    kept, its missing fields filled with missing values.
  \<^item> The index cells are not columns of the frame, and \<^verbatim>\<open>preserve_index=False\<close> keeps
    them out of the table that is written.
  \<^item> Records are numbered from 1 in the order of the file; a warning carries the number
    of its record, the expected and the seen count of fields.
  \<^item> A batch of \<open>n\<close> lines is taken as a batch of \<open>n\<close> records: the model reads a file
    with no blank line between its records (the reader counts the blank lines of a batch
    before it drops them).
\<close>

record read_kwargs =
  kw_header :: "nat option"
  kw_names :: "string list option"

datatype warning = BadLine nat nat nat

record frame =
  f_labels :: "string list"
  f_rows :: "cell list list"

definition numbered :: "'a list \<Rightarrow> (nat \<times> 'a) list" where
  "numbered xs = enumerate 1 xs"

definition to_cell :: "env \<Rightarrow> string \<Rightarrow> cell" where
  "to_cell e s = (if is_na e s then None else Some s)"

definition pad_row :: "nat \<Rightarrow> cell list \<Rightarrow> cell list" where
  "pad_row width cs = cs @ replicate (width - length cs) None"

text \<open>The two tests of \<^verbatim>\<open>_get_index_name\<close> on the records that follow the labels, \<open>n\<close>
  being the number of labels: whether the first of them is a row of index names (only
  asked when there is a header row), and the number of implicit index columns,
  \<^verbatim>\<open>len(line) - num_original_columns\<close> when that is positive.\<close>

definition index_names_row :: "nat \<Rightarrow> (nat \<times> string list) list \<Rightarrow> bool" where
  "index_names_row n data =
     (case data of
        line # next_line # _ \<Rightarrow> length (snd next_line) = length (snd line) + n
      | _ \<Rightarrow> False)"

definition implicit_first_cols :: "nat \<Rightarrow> (nat \<times> string list) list \<Rightarrow> nat" where
  "implicit_first_cols n data = (case data of [] \<Rightarrow> 0 | line # _ \<Rightarrow> length (snd line) - n)"

text \<open>The layout of a file under the given \<^verbatim>\<open>header\<close> and \<^verbatim>\<open>names\<close> arguments: the labels
  of the columns of the frame, their number as the reader counts it, the number of index
  cells that every record starts with, and the data records. An empty file has no
  columns to parse unless names are given; an empty list of names counts as no names
  (\<^verbatim>\<open>if not names\<close>). After a row of index names the reader runs the index names and the
  labels through \<^verbatim>\<open>dedup_names\<close>, which renames a label that repeats an earlier name. The
  scripts never pass names together with a header row; the model lets the names replace
  the labels there.\<close>

definition positional_layout ::
  "(nat \<times> string list) list
     \<Rightarrow> error + (string list \<times> nat \<times> nat \<times> (nat \<times> string list) list)" where
  "positional_layout recs =
     (case recs of
        [] \<Rightarrow> Inl EmptyDataError
      | h # _ \<Rightarrow> Inr (map str_nat [0..<length (snd h)], length (snd h), 0, recs))"

definition header_layout ::
  "env \<Rightarrow> string list \<Rightarrow> (nat \<times> string list) list
     \<Rightarrow> string list \<times> nat \<times> nat \<times> (nat \<times> string list) list" where
  "header_layout e h data =
     (let n = length h;
          labels = header_labels e h
      in if index_names_row n data
         then (let index_names = snd (hd data);
                   k = length index_names
               in (map (dedup_name e (index_names @ labels)) [k..<k + n], n, k, tl data))
         else (labels, n, implicit_first_cols n data, data))"

definition parse_layout ::
  "env \<Rightarrow> read_kwargs \<Rightarrow> (nat \<times> string list) list
     \<Rightarrow> error + (string list \<times> nat \<times> nat \<times> (nat \<times> string list) list)" where
  "parse_layout e kw recs =
     (case kw_header kw of
        Some _ \<Rightarrow>
          (case recs of
             [] \<Rightarrow> Inl EmptyDataError
           | h # data \<Rightarrow>
               (case kw_names kw of
                  None \<Rightarrow> Inr (header_layout e (snd h) data)
                | Some ns \<Rightarrow> Inr (ns, length ns, 0, data)))
      | None \<Rightarrow>
          (case kw_names kw of
             None \<Rightarrow> positional_layout recs
           | Some ns \<Rightarrow>
               if ns = [] then positional_layout recs
               else Inr (ns, length ns, implicit_first_cols (length ns) recs, recs)))"

text \<open>One batch of data records turned into rows of \<open>width\<close> cells, index cells included,
  with the warnings for its bad lines; and the rows of the frame, which leave out the
  \<open>k\<close> index cells.\<close>

definition good_rows :: "env \<Rightarrow> nat \<Rightarrow> (nat \<times> string list) list \<Rightarrow> cell list list" where
  "good_rows e width batch =
     map (\<lambda>(i, fs). pad_row width (map (to_cell e) fs))
       (filter (\<lambda>(i, fs). length fs \<le> width) batch)"

definition bad_line_warnings :: "nat \<Rightarrow> (nat \<times> string list) list \<Rightarrow> warning list" where
  "bad_line_warnings width batch =
     map (\<lambda>(i, fs). BadLine i width (length fs))
       (filter (\<lambda>(i, fs). width < length fs) batch)"

definition frame_rows :: "env \<Rightarrow> nat \<Rightarrow> nat \<Rightarrow> (nat \<times> string list) list \<Rightarrow> cell list list" where
  "frame_rows e n k batch = map (drop k) (good_rows e (n + k) batch)"

text \<open>\<^verbatim>\<open>read_csv(..., nrows=5)\<close>: the frame of the first five data records.\<close>

definition read_csv_nrows ::
  "env \<Rightarrow> read_kwargs \<Rightarrow> nat \<Rightarrow> (nat \<times> string list) list \<Rightarrow> error + (frame \<times> warning list)" where
  "read_csv_nrows e kw m recs =
     (case parse_layout e kw recs of
        Inl err \<Rightarrow> Inl err
      | Inr (labels, n, k, data) \<Rightarrow>
          Inr (\<lparr>f_labels = labels, f_rows = frame_rows e n k (take m data)\<rparr>,
               bad_line_warnings (n + k) (take m data)))"

text \<open>\<^verbatim>\<open>read_csv(..., chunksize=m)\<close>: the data records in batches of \<open>m\<close>. The first
  batch is read even when there is no data record.\<close>

function chunks_of :: "nat \<Rightarrow> 'a list \<Rightarrow> 'a list list" where
  "chunks_of n xs =
     (if n = 0 \<or> length xs \<le> n then [xs] else take n xs # chunks_of n (drop n xs))"
  by pat_completeness auto
termination
  by (relation "measure (\<lambda>(n, xs). length xs)") auto

declare chunks_of.simps [simp del]

definition read_csv_chunks ::
  "env \<Rightarrow> read_kwargs \<Rightarrow> nat \<Rightarrow> (nat \<times> string list) list
     \<Rightarrow> error + (frame \<times> warning list) list" where
  "read_csv_chunks e kw m recs =
     (case parse_layout e kw recs of
        Inl err \<Rightarrow> Inl err
      | Inr (labels, n, k, data) \<Rightarrow>
          Inr (map (\<lambda>batch. (\<lparr>f_labels = labels, f_rows = frame_rows e n k batch\<rparr>,
                              bad_line_warnings (n + k) batch))
                 (chunks_of m data)))"


section \<open>Streaming conversion to a columnar artifact\<close>

text \<open>
  The artifact is what the \<^verbatim>\<open>ParquetWriter\<close> has been given when it is closed: the
  schema of the first batch and the rows of every batch written. \<^verbatim>\<open>pa.Table.from_pandas\<close>
  gives every batch a schema of its own (the labels with the inferred column types), and
  \<^verbatim>\<open>write_table\<close> raises when a batch's schema differs from the writer's.
\<close>

record artifact =
  a_schema :: "(string \<times> nat) list"
  a_rows :: "cell list list"

definition column :: "cell list list \<Rightarrow> nat \<Rightarrow> cell list" where
  "column rs j = map (\<lambda>r. case drop j r of [] \<Rightarrow> None | c # _ \<Rightarrow> c) rs"

definition table_schema :: "env \<Rightarrow> frame \<Rightarrow> (string \<times> nat) list" where
  "table_schema e f =
     map (\<lambda>(j, l). (l, infer_type e (column (f_rows f) j)))
       (zip [0..<length (f_labels f)] (f_labels f))"

text \<open>The result of a conversion: the exception that ended it, if any; the artifact the
  closed writer leaves at the target path, if a writer was ever opened; the warnings
  issued on the way.\<close>

record conversion =
  c_error :: "error option"
  c_artifact :: "artifact option"
  c_warnings :: "warning list"

text \<open>The loop \<^verbatim>\<open>for chunk in pd.read_csv(...)\<close> with its \<^verbatim>\<open>finally\<close>: the first batch
  opens the writer with its schema, every batch is written, a batch of another schema
  raises and the writer is closed with what it holds.\<close>

fun write_chunks ::
  "env \<Rightarrow> artifact option \<Rightarrow> warning list \<Rightarrow> (frame \<times> warning list) list \<Rightarrow> conversion" where
  "write_chunks e w ws [] = \<lparr>c_error = None, c_artifact = w, c_warnings = ws\<rparr>"
| "write_chunks e w ws ((f, fw) # rest) =
     (let sch = table_schema e f;
          opened = (case w of None \<Rightarrow> \<lparr>a_schema = sch, a_rows = []\<rparr> | Some a \<Rightarrow> a)
      in if sch = a_schema opened
         then write_chunks e (Some (opened\<lparr>a_rows := a_rows opened @ f_rows f\<rparr>)) (ws @ fw) rest
         else \<lparr>c_error = Some SchemaMismatch, c_artifact = Some opened, c_warnings = ws @ fw\<rparr>)"

definition CHUNKSIZE :: nat where
  "CHUNKSIZE = 200000"

text \<open>The arguments of the definitive read (v2): the header row when no names were
  decided and a header is present, else no header row and the decided names.\<close>

definition decide_read_kwargs :: "string list option \<Rightarrow> bool \<Rightarrow> read_kwargs" where
  "decide_read_kwargs decided_names header_present =
     (if decided_names = None \<and> header_present
      then \<lparr>kw_header = Some 0, kw_names = None\<rparr>
      else \<lparr>kw_header = None, kw_names = decided_names\<rparr>)"

text \<open>\<^verbatim>\<open>csv_to_parquet\<close> (v2) on the content of the text file at \<open>csv_path\<close>: the header
  heuristic on the first line, the sample of five rows that counts the columns, the
  choice of names, the definitive read in batches and the writer loop.\<close>

definition csv_to_parquet :: "env \<Rightarrow> path \<Rightarrow> bytes \<Rightarrow> conversion" where
  "csv_to_parquet e csv_path content =
     (let base = detect_base_from_filename csv_path;
          header_present = looks_like_header (first_line content);
          recs = numbered (csv_records e content)
      in case read_csv_nrows e
                \<lparr>kw_header = (if header_present then Some 0 else None), kw_names = None\<rparr> 5 recs of
           Inl err \<Rightarrow> \<lparr>c_error = Some err, c_artifact = None, c_warnings = []\<rparr>
         | Inr (sample, sample_warnings) \<Rightarrow>
             (let ncols = length (f_labels sample);
                  decided_names = fst (choose_column_names base ncols header_present)
              in case read_csv_chunks e (decide_read_kwargs decided_names header_present)
                        CHUNKSIZE recs of
                   Inl err \<Rightarrow> \<lparr>c_error = Some err, c_artifact = None, c_warnings = sample_warnings\<rparr>
                 | Inr chunks \<Rightarrow> write_chunks e None sample_warnings chunks))"

text \<open>\<^verbatim>\<open>csv_to_parquet_with_duckdb\<close> (v1): one read in batches with the reader's defaults, so
  the first record is always taken as the header row.\<close>

definition csv_to_parquet_with_duckdb :: "env \<Rightarrow> path \<Rightarrow> bytes \<Rightarrow> conversion" where
  "csv_to_parquet_with_duckdb e csv_path content =
     (case read_csv_chunks e \<lparr>kw_header = Some 0, kw_names = None\<rparr> CHUNKSIZE
             (numbered (csv_records e content)) of
        Inl err \<Rightarrow> \<lparr>c_error = Some err, c_artifact = None, c_warnings = []\<rparr>
      | Inr chunks \<Rightarrow> write_chunks e None [] chunks)"


section \<open>Canonical column names (renaming script)\<close>

text \<open>
  \<^verbatim>\<open>scripts/renomear_colunas.py\<close> renames the columns of artifacts that exist already.
  \<^verbatim>\<open>unidecode\<close>, the transliteration to ASCII, is a parameter \<open>u\<close> of the model.
\<close>

definition is_alnum_lc :: "char \<Rightarrow> bool" where
  "is_alnum_lc c =
     (let n = (of_char c :: nat) in (97 \<le> n \<and> n \<le> 122) \<or> (48 \<le> n \<and> n \<le> 57))"

definition is_digit :: "char \<Rightarrow> bool" where
  "is_digit c = (let n = (of_char c :: nat) in 48 \<le> n \<and> n \<le> 57)"

text \<open>\<^verbatim>\<open>str.strip()\<close>: the white space of Latin-1.\<close>

definition is_space :: "char \<Rightarrow> bool" where
  "is_space c =
     (let n = (of_char c :: nat)
      in (9 \<le> n \<and> n \<le> 13) \<or> (28 \<le> n \<and> n \<le> 32) \<or> n = 133 \<or> n = 160)"

definition strip_where :: "(char \<Rightarrow> bool) \<Rightarrow> string \<Rightarrow> string" where
  "strip_where P s = rev (dropWhile P (rev (dropWhile P s)))"

text \<open>\<^verbatim>\<open>re.sub(r"[^a-z0-9]+", "_", s)\<close>: every maximal run of other characters becomes one
  underscore.\<close>

function sub_non_alnum :: "string \<Rightarrow> string" where
  "sub_non_alnum [] = []"
| "sub_non_alnum (c # cs) =
     (if is_alnum_lc c then c # sub_non_alnum cs
      else CHR ''_'' # sub_non_alnum (dropWhile (\<lambda>x. \<not> is_alnum_lc x) cs))"
  by pat_completeness auto
termination
  by (relation "measure length") (auto simp: less_Suc_eq_le length_dropWhile_le)

text \<open>\<^verbatim>\<open>re.sub(r"_+", "_", s)\<close>.\<close>

function collapse_us :: "string \<Rightarrow> string" where
  "collapse_us [] = []"
| "collapse_us (c # cs) =
     (if c = CHR ''_'' then CHR ''_'' # collapse_us (dropWhile (\<lambda>x. x = CHR ''_'') cs)
      else c # collapse_us cs)"
  by pat_completeness auto
termination
  by (relation "measure length") (auto simp: less_Suc_eq_le length_dropWhile_le)

definition to_sql_name :: "(string \<Rightarrow> string) \<Rightarrow> string \<Rightarrow> string" where
  "to_sql_name u raw =
     (let s = strip_where is_space (lower (u raw));
          s = sub_non_alnum s;
          s = strip_where (\<lambda>c. c = CHR ''_'') (collapse_us s)
      in s)"

text \<open>\<^verbatim>\<open>unique\<close>: the dictionary \<^verbatim>\<open>seen\<close> counts the names met so far; a name met again gets
  its count as a suffix.\<close>

fun unique_from :: "(string \<rightharpoonup> nat) \<Rightarrow> string list \<Rightarrow> string list" where
  "unique_from seen [] = []"
| "unique_from seen (n0 # ns) =
     (let n = (if n0 = [] then ''col'' else n0)
      in case seen n of
           None \<Rightarrow> n # unique_from (seen(n \<mapsto> 1)) ns
         | Some k \<Rightarrow> (n @ ''_'' @ str_nat (k + 1)) # unique_from (seen(n \<mapsto> k + 1)) ns)"

definition unique :: "string list \<Rightarrow> string list" where
  "unique names = unique_from Map.empty names"

text \<open>\<^verbatim>\<open>re.fullmatch(r"\d+(\.\d+)?", n)\<close>.\<close>

definition is_number :: "string \<Rightarrow> bool" where
  "is_number n =
     (case split_on (CHR ''.'') n of
        [a] \<Rightarrow> a \<noteq> [] \<and> list_all is_digit a
      | [a, b] \<Rightarrow> a \<noteq> [] \<and> list_all is_digit a \<and> b \<noteq> [] \<and> list_all is_digit b
      | _ \<Rightarrow> False)"

definition auto_sql_headers :: "(string \<Rightarrow> string) \<Rightarrow> string list \<Rightarrow> string list" where
  "auto_sql_headers u cols =
     unique (map (\<lambda>(i, c).
                    let n = to_sql_name u c
                    in if n = [] \<or> startswith n ''unnamed'' \<or> is_number n
                       then ''col_'' @ fmt_02d i else n)
               (enumerate 0 cols))"

text \<open>The canonical form of a column name: lower-case letters, digits and the separator
  \<^verbatim>\<open>_\<close>, never two separators in a row.\<close>

definition is_canon_char :: "char \<Rightarrow> bool" where
  "is_canon_char c = (is_alnum_lc c \<or> c = CHR ''_'')"

fun no_double_sep :: "string \<Rightarrow> bool" where
  "no_double_sep (a # b # r) = (\<not> (a = CHR ''_'' \<and> b = CHR ''_'') \<and> no_double_sep (b # r))"
| "no_double_sep r = True"

definition canonical_name :: "string \<Rightarrow> bool" where
  "canonical_name n = (list_all is_canon_char n \<and> no_double_sep n)"

text \<open>The number a string of decimal digits denotes (used to show that the positional names
  are pairwise distinct).\<close>

definition digits_val :: "string \<Rightarrow> nat" where
  "digits_val s = foldl (\<lambda>acc c. 10 * acc + (of_char c - 48)) 0 s"



section \<open>The world: files and the network\<close>

text \<open>
  The scripts act on the file system and on the network. The state holds the regular
  files, by path, and the log of the HTTP requests made so far, each with its URL and the
  offset of its \<^verbatim>\<open>Range\<close> header, if it has one. Directories are not part of the state:
  \<^verbatim>\<open>ensure_dir\<close> and the removal of empty directories change nothing in it, and a path is
  looked up as the string it is.
\<close>

record world =
  files :: "path \<rightharpoonup> bytes"
  requests :: "(string \<times> nat option) list"

definition file_exists :: "world \<Rightarrow> path \<Rightarrow> bool" where
  "file_exists w p = (files w p \<noteq> None)"

definition write_file :: "path \<Rightarrow> bytes \<Rightarrow> world \<Rightarrow> world" where
  "write_file p b w = w\<lparr>files := (files w)(p \<mapsto> b)\<rparr>"

definition unlink :: "path \<Rightarrow> world \<Rightarrow> world" where
  "unlink p w = w\<lparr>files := (files w)(p := None)\<rparr>"

definition log_request :: "string \<Rightarrow> nat option \<Rightarrow> world \<Rightarrow> world" where
  "log_request url rng w = w\<lparr>requests := requests w @ [(url, rng)]\<rparr>"

text \<open>\<^verbatim>\<open>r.raise_for_status()\<close>.\<close>

definition raise_for_status :: "nat \<Rightarrow> error option" where
  "raise_for_status status = (if 400 \<le> status \<and> status < 600 then Some (HTTPError status) else None)"


section \<open>Archive index resolver\<close>

text \<open>
  \<^verbatim>\<open>ZIP_PATTERN = re.compile(r'href="([^"]+\.zip)"', re.IGNORECASE)\<close>. A match at the start
  of \<open>s\<close> is \<^verbatim>\<open>href="\<close> in any letter case, the run of characters up to the next double
  quote, which must end in \<^verbatim>\<open>.zip\<close> in any letter case after at least one other character,
  and that double quote. The result is the run and the text after the match.
\<close>

definition dquote :: char where
  "dquote = CHR 0x22"

definition match_href :: "string \<Rightarrow> (string \<times> string) option" where
  "match_href s =
     (if lower (take 6 s) = ''href='' @ [dquote]
      then (let run = takeWhile (\<lambda>c. c \<noteq> dquote) (drop 6 s)
            in case drop (6 + length run) s of
                 [] \<Rightarrow> None
               | q # rest \<Rightarrow>
                   if 5 \<le> length run \<and> endswith (lower run) ''.zip''
                   then Some (run, rest) else None)
      else None)"

text \<open>\<^verbatim>\<open>ZIP_PATTERN.findall(text)\<close>: the matches from left to right, the search going on
  after the end of each match. The text after a match is always shorter than the text
  the match started in (lemma \<open>match_href_shorter\<close> below); the test for it only makes the
  termination of the recursion evident.\<close>

function findall_zip :: "string \<Rightarrow> string list" where
  "findall_zip [] = []"
| "findall_zip (c # cs) =
     (case match_href (c # cs) of
        Some (run, rest) \<Rightarrow>
          if length rest < length (c # cs) then run # findall_zip rest else [run]
      | None \<Rightarrow> findall_zip cs)"
  by pat_completeness auto
termination
  by (relation "measure length") auto

text \<open>\<^verbatim>\<open>list_zip_links\<close>, the same in v1 and v2: one GET of the listing (the whole body is
  read, so a broken connection is an exception), the status check, the links joined to
  the base URL one after the other (the first one that cannot be joined raises), the
  result without duplicates and sorted.\<close>

definition list_zip_links :: "env \<Rightarrow> string \<Rightarrow> world \<Rightarrow> (error + string list) \<times> world" where
  "list_zip_links e base_url w =
     (let w1 = log_request base_url None w
      in case http_get e base_url None of
           NoConnection \<Rightarrow> (Inl ConnectionError, w1)
         | Response status body broken \<Rightarrow>
             if broken then (Inl ConnectionError, w1)
             else (case raise_for_status status of
                     Some err \<Rightarrow> (Inl err, w1)
                   | None \<Rightarrow>
                       (let links = findall_zip (response_text e body)
                        in case those (map (urljoin e base_url) links) of
                             None \<Rightarrow> (Inl InvalidURL, w1)
                           | Some joined \<Rightarrow>
                               (let zips = sort (remdups joined)
                                in if zips = [] then (Inl NoZipFound, w1) else (Inr zips, w1)))))"


section \<open>Resumable fetcher\<close>

text \<open>\<^verbatim>\<open>r.iter_content(chunk_size=chunk)\<close>: the body in pieces of \<open>chunk\<close> bytes, the last
  one shorter when the body ends there. When the connection breaks the exception comes
  out of the iterator in place of the piece that was being filled, so the loop has been
  given only the pieces that arrived whole.\<close>

definition DOWNLOAD_CHUNK :: nat where
  "DOWNLOAD_CHUNK = 1048576"

definition iter_content :: "nat \<Rightarrow> bytes \<Rightarrow> bool \<Rightarrow> bytes list" where
  "iter_content chunk body broken =
     (if broken then chunks_of chunk (take (length body div chunk * chunk) body)
      else chunks_of chunk body)"

text \<open>
  \<^verbatim>\<open>download_file\<close>, the same in v1 and v2. The partial file is the destination with
  \<^verbatim>\<open>.part\<close> appended. When it exists it is opened for appending, and when it is not empty
  the request carries \<^verbatim>\<open>Range: bytes=<its size>-\<close>. The status is checked for an error
  only; the pieces of the body that are not empty are then written one by one, and when
  the connection breaks the exception leaves the partial file with the pieces written so
  far. After the last piece the partial file is renamed to the destination.
\<close>

definition download_file :: "env \<Rightarrow> string \<Rightarrow> path \<Rightarrow> world \<Rightarrow> (error + path) \<times> world" where
  "download_file e url dest w =
     (let tmp = add_suffix dest ''.part'';
          old = (case files w tmp of Some b \<Rightarrow> b | None \<Rightarrow> []);
          downloaded = length old;
          rng = (if 0 < downloaded then Some downloaded else None);
          w1 = log_request url rng w
      in case http_get e url rng of
           NoConnection \<Rightarrow> (Inl ConnectionError, w1)
         | Response status body broken \<Rightarrow>
             (case raise_for_status status of
                Some err \<Rightarrow> (Inl err, w1)
              | None \<Rightarrow>
                  (let written = old @ concat (filter (\<lambda>c. c \<noteq> [])
                                                 (iter_content DOWNLOAD_CHUNK body broken));
                       w2 = write_file tmp written w1
                   in if broken then (Inl ConnectionError, w2)
                      else (Inr dest, unlink tmp (write_file dest written w2)))))"


section \<open>Archive extractor\<close>

text \<open>\<^verbatim>\<open>z.getinfo(name)\<close>: the entry of that name, the last one when a name is listed
  twice.\<close>

definition getinfo :: "zip_member list \<Rightarrow> string \<Rightarrow> zip_member option" where
  "getinfo ms name = List.find (\<lambda>m. m_name m = name) (rev ms)"

definition member_size :: "zip_member list \<Rightarrow> string \<Rightarrow> nat" where
  "member_size ms name = (case getinfo ms name of Some m \<Rightarrow> m_file_size m | None \<Rightarrow> 0)"

text \<open>\<^verbatim>\<open>max(names, key=...)\<close>: the first name whose key no other name exceeds.\<close>

definition max_by :: "('a \<Rightarrow> nat) \<Rightarrow> 'a \<Rightarrow> 'a list \<Rightarrow> 'a" where
  "max_by key x xs = foldl (\<lambda>best y. if key best < key y then y else best) x xs"

definition tabular_suffix :: "string \<Rightarrow> bool" where
  "tabular_suffix m =
     (endswith (lower m) ''csv'' \<or> endswith (lower m) ''.csv'' \<or> endswith (lower m) ''.txt'')"

definition mentions_csv :: "string \<Rightarrow> bool" where
  "mentions_csv m = contains (lower m) ''csv''"

text \<open>The selection of \<^verbatim>\<open>unzip_single_csv\<close>, the same in v1 and v2: \<^verbatim>\<open>cand[0]\<close> of the first
  candidate list that is not empty.\<close>

definition select_member :: "zip_member list \<Rightarrow> error + string" where
  "select_member ms =
     (case map m_name ms of
        [] \<Rightarrow> Inl EmptyArchive
      | n # ns \<Rightarrow>
          (case filter tabular_suffix (n # ns) of
             c # _ \<Rightarrow> Inr c
           | [] \<Rightarrow>
               (case filter mentions_csv (n # ns) of
                  c # _ \<Rightarrow> Inr c
                | [] \<Rightarrow> Inr (max_by (member_size ms) n ns))))"

text \<open>The name the extracted file gets: the member's own file name, with \<^verbatim>\<open>.csv\<close> appended
  unless it ends in \<^verbatim>\<open>.csv\<close> already, in any letter case.\<close>

definition csv_base_name :: "string \<Rightarrow> string" where
  "csv_base_name member =
     (let original_name = path_name member
      in if endswith (lower original_name) ''.csv'' then original_name
         else original_name @ ''.csv'')"

text \<open>Where \<^verbatim>\<open>z.extract(member, path=extract_dir)\<close> puts the file (\<^verbatim>\<open>zipfile\<close> drops empty
  components, \<^verbatim>\<open>.\<close> and \<^verbatim>\<open>..\<close>), and where the script looks for it
  (\<^verbatim>\<open>extract_dir / member\<close>; an absolute member name replaces the directory).\<close>

definition extract_target :: "path \<Rightarrow> string \<Rightarrow> path" where
  "extract_target extract_dir member =
     foldl pjoin extract_dir
       (filter (\<lambda>c. c \<noteq> [] \<and> c \<noteq> ''.'' \<and> c \<noteq> ''..'') (split_on (CHR ''/'') member))"

definition extracted_path :: "path \<Rightarrow> string \<Rightarrow> path" where
  "extracted_path extract_dir member =
     (if startswith member ''/'' then foldl pjoin [] (path_parts member)
      else foldl pjoin extract_dir (path_parts member))"

text \<open>The path \<^verbatim>\<open>unzip_single_csv\<close> returns when nothing raises: \<^verbatim>\<open>out_path\<close>, or
  \<^verbatim>\<open>out_path\<close> with \<^verbatim>\<open>.csv\<close> appended when the file came out under that very path and its
  suffix (the suffix of the base name) is not \<^verbatim>\<open>.csv\<close>.\<close>

definition returned_path :: "path \<Rightarrow> string \<Rightarrow> path" where
  "returned_path extract_dir member =
     (let out_path = pjoin extract_dir (csv_base_name member)
      in if extracted_path extract_dir member \<noteq> out_path then out_path
         else if lower (name_suffix (csv_base_name member)) \<noteq> ''.csv''
         then add_suffix out_path ''.csv''
         else out_path)"

text \<open>
  \<^verbatim>\<open>unzip_single_csv\<close>. A member whose CRC check fails raises \<^verbatim>\<open>BadZipFile\<close> while it is
  extracted (the model leaves no file behind). A directory entry (its name ends in
  \<^verbatim>\<open>/\<close>) is extracted, moved and renamed as a directory, which changes no regular file.
\<close>

definition unzip_single_csv :: "env \<Rightarrow> path \<Rightarrow> path \<Rightarrow> world \<Rightarrow> (error + path) \<times> world" where
  "unzip_single_csv e zip_path extract_dir w =
     (case files w zip_path of
        None \<Rightarrow> (Inl (FileNotFound zip_path), w)
      | Some zbytes \<Rightarrow>
          (case read_zip e zbytes of
             None \<Rightarrow> (Inl BadZipFile, w)
           | Some ms \<Rightarrow>
               (case select_member ms of
                  Inl err \<Rightarrow> (Inl err, w)
                | Inr member \<Rightarrow>
                    (let out_path = pjoin extract_dir (csv_base_name member);
                         w1 = (if file_exists w out_path then unlink out_path w else w)
                     in case getinfo ms member of
                          None \<Rightarrow> (Inl (FileNotFound member), w1)
                        | Some info \<Rightarrow>
                            if endswith member ''/'' then (Inr (returned_path extract_dir member), w1)
                            else if \<not> m_crc_ok info then (Inl BadZipFile, w1)
                            else
                              (let w2 = write_file (extract_target extract_dir member) (m_data info) w1;
                                   extracted = extracted_path extract_dir member
                               in if extracted \<noteq> out_path
                                  then (case files w2 extracted of
                                          None \<Rightarrow> (Inl (FileNotFound extracted), w2)
                                        | Some b \<Rightarrow> (Inr out_path, unlink extracted (write_file out_path b w2)))
                                  else if lower (name_suffix (csv_base_name member)) \<noteq> ''.csv''
                                  then (let final_csv = add_suffix out_path ''.csv''
                                        in case files w2 out_path of
                                             None \<Rightarrow> (Inl (FileNotFound out_path), w2)
                                           | Some b \<Rightarrow> (Inr final_csv, unlink out_path (write_file final_csv b w2)))
                                  else (Inr out_path, w2))))))"


section \<open>Encoding normalizer (v1)\<close>



text \<open>The UTF-8 encoding of a text of Latin-1 characters, as the values of its bytes: one
  byte below U+0080, two bytes from there on.\<close>

definition utf8_encode_char :: "nat \<Rightarrow> nat list" where
  "utf8_encode_char c = (if c < 128 then [c] else [192 + c div 64, 128 + c mod 64])"

definition utf8_encode :: "nat list \<Rightarrow> nat list" where
  "utf8_encode cs = concat (map utf8_encode_char cs)"

definition byte_values :: "bytes \<Rightarrow> nat list" where
  "byte_values b = map of_char b"

definition bytes_of :: "nat list \<Rightarrow> bytes" where
  "bytes_of vs = map char_of vs"

text \<open>A text file opened with \<^verbatim>\<open>newline=""\<close>: a line ends after \<^verbatim>\<open>\n\<close>, \<^verbatim>\<open>\r\<close> or \<^verbatim>\<open>\r\n\<close> and
  keeps its ending.\<close>

fun take_line :: "string \<Rightarrow> string \<times> string" where
  "take_line [] = ([], [])"
| "take_line (c # cs) =
     (if c = CHR 0x0A then ([c], cs)
      else if c = CHR 0x0D then
        (case cs of
           d # r \<Rightarrow> if d = CHR 0x0A then ([c, d], r) else ([c], cs)
         | [] \<Rightarrow> ([c], cs))
      else (case take_line cs of (l, r) \<Rightarrow> (c # l, r)))"

function lines_of :: "string \<Rightarrow> string list" where
  "lines_of s =
     (if s = [] then []
      else (case take_line s of
              (l, r) \<Rightarrow> if length r < length s then l # lines_of r else [l]))"
  by pat_completeness auto
termination
  by (relation "measure length") auto

declare lines_of.simps [simp del]

text \<open>\<^verbatim>\<open>fin.readlines(hint)\<close>: lines are taken until their total size exceeds the hint.\<close>

fun take_batch :: "nat \<Rightarrow> nat \<Rightarrow> string list \<Rightarrow> string list \<times> string list" where
  "take_batch hint n [] = ([], [])"
| "take_batch hint n (l # ls) =
     (if hint - n < length l then ([l], ls)
      else (case take_batch hint (n + length l) ls of (b, r) \<Rightarrow> (l # b, r)))"

text \<open>The loop \<^verbatim>\<open>buf = fin.readlines(...); while buf: fout.writelines(buf); buf = ...\<close>: the
  text that reaches the output.\<close>

function copy_batches :: "nat \<Rightarrow> string list \<Rightarrow> string" where
  "copy_batches hint ls =
     (case take_batch hint 0 ls of
        (buf, rest) \<Rightarrow>
          if buf = [] then []
          else if length rest < length ls then concat buf @ copy_batches hint rest
          else concat buf)"
  by pat_completeness auto
termination
  by (relation "measure (\<lambda>(hint, ls). length ls)") auto

declare copy_batches.simps [simp del]


definition READLINES_HINT :: nat where
  "READLINES_HINT = 1048576"

text \<open>The bytes \<^verbatim>\<open>ensure_utf8\<close> writes for a source read as Latin-1.\<close>

definition transcode :: "bytes \<Rightarrow> bytes" where
  "transcode content =
     bytes_of (utf8_encode (byte_values (copy_batches READLINES_HINT (lines_of content))))"



section \<open>Ingestion orchestrator\<close>

text \<open>\<^verbatim>\<open>z.testzip()\<close>: the name of the first member whose CRC check fails.\<close>

definition testzip :: "zip_member list \<Rightarrow> string option" where
  "testzip ms = map_option m_name (List.find (\<lambda>m. \<not> m_crc_ok m) ms)"

text \<open>The three paths \<^verbatim>\<open>process_one_zip\<close> derives from the URL of an archive.\<close>

definition zip_name_of :: "string \<Rightarrow> string" where
  "zip_name_of zip_url = last (split_on (CHR ''/'') (rstrip_char (CHR ''/'') zip_url))"

definition zip_path_of :: "path \<Rightarrow> string \<Rightarrow> path" where
  "zip_path_of work_dir zip_url = pjoin (pjoin work_dir ''zips'') (zip_name_of zip_url)"

definition parquet_path_of :: "path \<Rightarrow> string \<Rightarrow> path" where
  "parquet_path_of out_dir zip_url =
     pjoin out_dir (name_stem (path_name (zip_name_of zip_url)) @ ''.parquet'')"

text \<open>The download step: an archive that is present and passes the integrity check is
  kept; one that fails it, or is no archive, is deleted and fetched again; an absent one
  is fetched.\<close>

definition fetch_step :: "env \<Rightarrow> string \<Rightarrow> path \<Rightarrow> world \<Rightarrow> error option \<times> world" where
  "fetch_step e zip_url zip_path w =
     (let again = (\<lambda>w0. case download_file e zip_url zip_path w0 of
                           (Inl err, w1) \<Rightarrow> (Some err, w1)
                         | (Inr _, w1) \<Rightarrow> (None, w1))
      in case files w zip_path of
           None \<Rightarrow> again w
         | Some zbytes \<Rightarrow>
             (case read_zip e zbytes of
                None \<Rightarrow> again (unlink zip_path w)
              | Some ms \<Rightarrow>
                  (case testzip ms of
                     None \<Rightarrow> (None, w)
                   | Some bad \<Rightarrow> again (unlink zip_path w))))"

text \<open>The conversion step of the orchestrator: the converter runs on the content of the
  extracted file and the closed writer leaves its artifact, if any, at the target.\<close>

type_synonym converter = "env \<Rightarrow> path \<Rightarrow> bytes \<Rightarrow> conversion"

definition convert_step :: "env \<Rightarrow> converter \<Rightarrow> path \<Rightarrow> path \<Rightarrow> world \<Rightarrow> error option \<times> world" where
  "convert_step e conv csv_path parquet_path w =
     (case files w csv_path of
        None \<Rightarrow> (Some (FileNotFound csv_path), w)
      | Some content \<Rightarrow>
          (let c = conv e csv_path content;
               w1 = (case c_artifact c of
                       None \<Rightarrow> w
                     | Some a \<Rightarrow> write_file parquet_path (parquet_bytes e (a_schema a, a_rows a)) w)
           in (c_error c, w1)))"

text \<open>
  \<^verbatim>\<open>process_one_zip\<close>, the same in v1 and v2 but for the converter it calls, which is the
  parameter \<open>conv\<close>. The result is the exception that ended it, if any, and the world it
  leaves.
\<close>

definition process_one_zip ::
  "env \<Rightarrow> converter \<Rightarrow> string \<Rightarrow> path \<Rightarrow> path \<Rightarrow> bool \<Rightarrow> bool \<Rightarrow> world \<Rightarrow> error option \<times> world" where
  "process_one_zip e conv zip_url work_dir out_dir keep_zip keep_csv w =
     (let zip_path = zip_path_of work_dir zip_url;
          csv_dir = pjoin work_dir ''csv_tmp'';
          parquet_path = parquet_path_of out_dir zip_url
      in if file_exists w parquet_path then (None, w)
         else
           (case fetch_step e zip_url zip_path w of
              (Some err, w1) \<Rightarrow> (Some err, w1)
            | (None, w1) \<Rightarrow>
                (case unzip_single_csv e zip_path csv_dir w1 of
                   (Inl err, w2) \<Rightarrow> (Some err, w2)
                 | (Inr csv_path, w2) \<Rightarrow>
                     (case convert_step e conv csv_path parquet_path w2 of
                        (Some err, w3) \<Rightarrow> (Some err, w3)
                      | (None, w3) \<Rightarrow>
                          (let w4 = (if \<not> keep_csv \<and> file_exists w3 csv_path
                                     then unlink csv_path w3 else w3);
                               w5 = (if \<not> keep_zip \<and> file_exists w4 zip_path
                                     then unlink zip_path w4 else w4)
                           in (None, w5))))))"

text \<open>The command line of \<^verbatim>\<open>main\<close>.\<close>

record args =
  base_url :: string
  work_dir :: path
  out_dir :: path
  keep_zip :: bool
  keep_csv :: bool
  filter_pat :: string
  limit :: int

text \<open>The archives \<^verbatim>\<open>main\<close> goes through: the listing, narrowed by the filter (the
  search is made for one archive after the other, and raises when the filter is no
  regular expression) and cut at the limit.\<close>

definition selected_zips :: "env \<Rightarrow> args \<Rightarrow> string list \<Rightarrow> error + string list" where
  "selected_zips e a zips =
     (let cut = (\<lambda>zs. if 0 < limit a then take (nat (limit a)) zs else zs)
      in if filter_pat a \<noteq> []
         then (case those (map (re_search e (filter_pat a)) zips) of
                 None \<Rightarrow> Inl RegexError
               | Some found \<Rightarrow> Inr (cut (map fst (filter snd (zip zips found)))))
         else Inr (cut zips))"

text \<open>
  \<^verbatim>\<open>main\<close>: an exception of the listing or of the filter ends the run; an exception of
  one archive is caught and the loop goes on with the world that archive left. When the
  filter leaves no archive the run ends at once (\<^verbatim>\<open>sys.exit(0)\<close>), as the loop over no
  archive does. The directories \<^verbatim>\<open>main\<close> makes first are no part of the state.
\<close>

definition main :: "env \<Rightarrow> converter \<Rightarrow> args \<Rightarrow> world \<Rightarrow> error option \<times> world" where
  "main e conv a w =
     (case list_zip_links e (base_url a) w of
        (Inl err, w1) \<Rightarrow> (Some err, w1)
      | (Inr zips, w1) \<Rightarrow>
          (case selected_zips e a zips of
             Inl err \<Rightarrow> (Some err, w1)
           | Inr selected \<Rightarrow>
               (None,
                foldl (\<lambda>w0 zip_url.
                         snd (process_one_zip e conv zip_url (work_dir a) (out_dir a)
                                (keep_zip a) (keep_csv a) w0))
                  w1 selected)))"


section \<open>A reference instance of the library parameters\<close>

text \<open>
  To run the model on concrete inputs the library parameters need values. The reference
  instance reads quote-free text (records are the non-empty lines, fields are split at
  the delimiter), takes header labels and names without repetition as they
  stand (its examples repeat none), reads the empty field as missing,
  joins a plain reference to a base URL that ends in a slash by appending it (a reference
  that starts with two slashes names its own host and takes only the scheme of the base;
  it is refused when its host part has one bracket without the other),
  types a column 0 when all its cells are missing and 1 otherwise, and writes an
  artifact as readable text; it searches for a pattern as for a plain text, in any
  letter case. Its server answers nothing; the examples that need a
  server replace \<open>http_get\<close>.
\<close>

definition plain_records :: "bytes \<Rightarrow> string list list" where
  "plain_records content =
     map (split_on (CHR '';'')) (filter (\<lambda>l. l \<noteq> []) (split_on (CHR 0x0A) content))"

definition plain_type :: "cell list \<Rightarrow> nat" where
  "plain_type col = (if list_all (\<lambda>c. c = None) col then 0 else 1)"

definition plain_parquet :: "(string \<times> nat) list \<times> cell list list \<Rightarrow> bytes" where
  "plain_parquet t =
     concat (map (\<lambda>(l, ty). l @ '':'' @ str_nat ty @ '';'') (fst t)) @ [CHR 0x0A] @
     concat (map (\<lambda>r. concat (map (\<lambda>c. case c of None \<Rightarrow> ''?;'' | Some s \<Rightarrow> ''='' @ s @ '';'') r)
                        @ [CHR 0x0A]) (snd t))"

definition demo_urljoin :: "string \<Rightarrow> string \<Rightarrow> string option" where
  "demo_urljoin base href =
     (if startswith href ''//''
      then (let netloc = takeWhile (\<lambda>c. c \<notin> set ''/?#'') (drop 2 href)
            in if (CHR ''['' \<in> set netloc) \<noteq> (CHR '']'' \<in> set netloc) then None
               else Some (takeWhile (\<lambda>c. c \<noteq> CHR '':'') base @ '':'' @ href))
      else Some (base @ href))"

definition demo_env :: env where
  "demo_env =
     \<lparr>http_get = (\<lambda>url rng. NoConnection),
      response_text = (\<lambda>b. b),
      urljoin = demo_urljoin,
      read_zip = (\<lambda>b. None),
      csv_records = plain_records,
      header_labels = (\<lambda>r. r),
      dedup_name = (\<lambda>names j. names ! j),
      is_na = (\<lambda>s. s = []),
      infer_type = plain_type,
      parquet_bytes = plain_parquet,
      re_search = (\<lambda>pat s. Some (contains (lower s) (lower pat)))\<rparr>"

text \<open>A listing page with four anchors: an archive, an archive in capitals, a text file,
  and the first archive once more.\<close>

definition demo_listing :: string where
  "demo_listing =
     ''<a href='' @ [dquote] @ ''Empresas0.zip'' @ [dquote] @ ''>Empresas0.zip</a>'' @
     ''<a HREF='' @ [dquote] @ ''Cnaes.ZIP'' @ [dquote] @ ''>Cnaes</a>'' @
     ''<a href='' @ [dquote] @ ''notes.txt'' @ [dquote] @ ''>notes</a>'' @
     ''<a href='' @ [dquote] @ ''Empresas0.zip'' @ [dquote] @ ''>again</a>''"

text \<open>A listing page whose only anchor refers to an archive on a host written with an
  opening bracket alone.\<close>

definition bracket_listing :: string where
  "bracket_listing = ''<a href='' @ [dquote] @ ''//[x.zip'' @ [dquote] @ ''>x</a>''"

definition empty_world :: world where
  "empty_world = \<lparr>files = Map.empty, requests = []\<rparr>"

text \<open>Two archives: one whose payload has a name without extension, next to a leaflet;
  one whose members give no hint, two of them of the largest size.\<close>

definition demo_members :: "zip_member list" where
  "demo_members =
     [\<lparr>m_name = ''LEIAME.pdf'', m_file_size = 900, m_data = ''%PDF'', m_crc_ok = True\<rparr>,
      \<lparr>m_name = ''F.K03200$Z.D50712.MUNICCSV'', m_file_size = 19,
       m_data = ''0001;GUAJARA-MIRIM'' @ [CHR 0x0A], m_crc_ok = True\<rparr>]"

definition demo_members_bin :: "zip_member list" where
  "demo_members_bin =
     [\<lparr>m_name = ''a.bin'', m_file_size = 5, m_data = ''12345'', m_crc_ok = True\<rparr>,
      \<lparr>m_name = ''b.bin'', m_file_size = 9, m_data = ''123456789'', m_crc_ok = True\<rparr>,
      \<lparr>m_name = ''c.bin'', m_file_size = 9, m_data = ''987654321'', m_crc_ok = True\<rparr>]"

definition demo_zip_world :: world where
  "demo_zip_world = \<lparr>files = [''work/zips/Municipios.zip'' \<mapsto> ''PK''], requests = []\<rparr>"

text \<open>Three servers for one archive of six bytes: one answers a range request with the
  rest of the archive (status 206), one ignores the \<^verbatim>\<open>Range\<close> header and always sends the
  whole archive (status 200), and one loses the connection after the first \<open>k\<close> bytes. A
  world whose only file is the partial file of the archive, holding its first \<open>k\<close> bytes.\<close>

definition demo_stream :: bytes where
  "demo_stream = ''ABCDEF''"

definition ranged_server :: "string \<Rightarrow> nat option \<Rightarrow> http_result" where
  "ranged_server url rng =
     (case rng of
        None \<Rightarrow> Response 200 demo_stream False
      | Some k \<Rightarrow>
          if k < length demo_stream then Response 206 (drop k demo_stream) False
          else Response 416 [] False)"

definition plain_server :: "string \<Rightarrow> nat option \<Rightarrow> http_result" where
  "plain_server url rng = Response 200 demo_stream False"

definition cut_server :: "nat \<Rightarrow> string \<Rightarrow> nat option \<Rightarrow> http_result" where
  "cut_server k url rng = Response 200 (take k demo_stream) True"


text \<open>A server that answers every request with the listing page, a command line with the
  defaults of \<^verbatim>\<open>main\<close> but for the directories, and a world in which the artifacts of the
  two archives of the listing exist.\<close>

definition listing_env :: env where
  "listing_env = demo_env\<lparr>http_get := \<lambda>url rng. Response 200 demo_listing False\<rparr>"

definition demo_args :: args where
  "demo_args =
     \<lparr>base_url = ''http://rf/2025-07/'', work_dir = ''work'', out_dir = ''parquet'',
      keep_zip = False, keep_csv = False, filter_pat = [], limit = 0\<rparr>"

definition done_world :: world where
  "done_world =
     \<lparr>files = [''parquet/Cnaes.parquet'' \<mapsto> ''codigo:1;descricao:1;'',
               ''parquet/Empresas0.parquet'' \<mapsto> ''cnpj_basico:1;''],
      requests = []\<rparr>"








section \<open>Facts about strings\<close>

lemma lower_char_code: "is_upper c \<Longrightarrow> (of_char (lower_char c) :: nat) = of_char c + 32"
  by (cases c) (auto simp: lower_char_def is_upper_def Let_def of_bool_def split: if_splits)

lemma chunks_of_short: "length xs \<le> n \<Longrightarrow> chunks_of n xs = [xs]"
  by (subst chunks_of.simps) simp

lemma chunks_of_nonempty: "chunks_of n xs \<noteq> []"
  by (subst chunks_of.simps) simp

lemma numbered_Cons: "numbered (x # xs) = (1, x) # enumerate 2 xs"
  by (simp add: numbered_def numeral_2_eq_2)

text \<open>The equations that evaluate the converter on a concrete file under the reference
  instance.\<close>

lemmas conv_eval =
  csv_to_parquet_def csv_to_parquet_with_duckdb_def demo_env_def plain_records_def plain_type_def
  detect_base_from_filename_def DETECT_MAP_def lower_def lower_char_def is_upper_def
  path_name_def path_parts_def startswith_def looks_like_header_def first_line_def
  CSV_DELIM_def is_label_char_def numbered_def read_csv_nrows_def parse_layout_def
  positional_layout_def header_layout_def index_names_row_def implicit_first_cols_def
  frame_rows_def good_rows_def bad_line_warnings_def read_csv_chunks_def chunks_of_short
  CHUNKSIZE_def
  decide_read_kwargs_def choose_column_names_def COLS_def table_schema_def column_def
  to_cell_def pad_row_def Let_def auto_names_def fmt_02d_def digit_char_def


section \<open>Schema resolution\<close>

lemma COLS_nonempty: "COLS base = Some t \<Longrightarrow> t \<noteq> []"
  by (auto simp: COLS_def split: if_splits)

lemma choose_fixed:
  "COLS base = Some t \<Longrightarrow> length t = n \<Longrightarrow> fst (choose_column_names base n hp) = Some t"
  by (frule COLS_nonempty) (simp add: choose_column_names_def)

lemma choose_other:
  "\<forall>t. COLS base = Some t \<longrightarrow> length t \<noteq> n \<Longrightarrow>
   fst (choose_column_names base n hp) = (if hp then None else Some (auto_names n))"
  by (auto simp: choose_column_names_def split: option.splits)

lemma choose_None_header: "fst (choose_column_names base n hp) = None \<Longrightarrow> hp"
  by (auto simp: choose_column_names_def split: option.splits if_splits)

lemma map_fst_table_schema: "map fst (table_schema e f) = f_labels f"
proof -
  have "map fst (table_schema e f) = map snd (zip [0..<length (f_labels f)] (f_labels f))"
    by (simp add: table_schema_def case_prod_unfold comp_def)
  also have "\<dots> = f_labels f"
    by (simp add: map_snd_zip)
  finally show ?thesis .
qed

lemma write_chunks_keeps_schema:
  "c_artifact (write_chunks e (Some a) ws cs) = Some a' \<Longrightarrow> a_schema a' = a_schema a"
  by (induction cs arbitrary: a ws) (auto simp: Let_def split: if_splits)

lemma write_chunks_first_schema:
  "c_artifact (write_chunks e None ws ((f, fw) # rest)) = Some a' \<Longrightarrow> a_schema a' = table_schema e f"
  using write_chunks_keeps_schema
    [of e "\<lparr>a_schema = table_schema e f, a_rows = f_rows f\<rparr>" "ws @ fw" rest a']
  by (simp add: Let_def)


section \<open>Rows, warnings and batches\<close>

lemma concat_chunks_of: "concat (chunks_of n xs) = xs"
proof (induction n xs rule: chunks_of.induct)
  case (1 n xs)
  show ?case
  proof (cases "n = 0 \<or> length xs \<le> n")
    case True
    then show ?thesis by (subst chunks_of.simps) simp
  next
    case False
    with 1 show ?thesis by (subst chunks_of.simps) simp
  qed
qed

lemma chunks_of_Cons: "0 < n \<Longrightarrow> \<exists>ys yss. chunks_of n (x # xs) = (x # ys) # yss"
  by (subst chunks_of.simps) (cases n; simp)

lemma good_rows_concat: "good_rows e w (concat bs) = concat (map (good_rows e w) bs)"
  by (induction bs) (simp_all add: good_rows_def)




lemma write_chunks_single:
  "write_chunks e None ws [(f, fw)] =
     \<lparr>c_error = None, c_artifact = Some \<lparr>a_schema = table_schema e f, a_rows = f_rows f\<rparr>,
      c_warnings = ws @ fw\<rparr>"
  by (simp add: Let_def)

lemma write_chunks_Some_prefix:
  "c_artifact (write_chunks e (Some a) ws cs) = Some a' \<Longrightarrow> \<exists>more. a_rows a' = a_rows a @ more"
  by (induction cs arbitrary: a ws) (fastforce simp: Let_def split: if_splits)+

lemma write_chunks_None_prefix:
  "c_artifact (write_chunks e None ws ((f, fw) # rest)) = Some a' \<Longrightarrow>
   \<exists>more. a_rows a' = f_rows f @ more"
  using write_chunks_Some_prefix
    [of e "\<lparr>a_schema = table_schema e f, a_rows = f_rows f\<rparr>" "ws @ fw" rest a']
  by (simp add: Let_def)



lemma choose_length: "fst (choose_column_names base n hp) = Some ns \<Longrightarrow> length ns = n"
  by (auto simp: choose_column_names_def auto_names_def split: option.splits if_splits)


lemma write_chunks_Some_start:
  "\<exists>a' more. c_artifact (write_chunks e (Some a) ws cs) = Some a' \<and> a_rows a' = a_rows a @ more"
proof (induction cs arbitrary: a ws)
  case Nil
  then show ?case by simp
next
  case (Cons c cs)
  obtain f fw where c: "c = (f, fw)" by (cases c)
  show ?case
  proof (cases "table_schema e f = a_schema a")
    case True
    from Cons.IH [of "a\<lparr>a_rows := a_rows a @ f_rows f\<rparr>" "ws @ fw"]
    show ?thesis by (auto simp: c Let_def True)
  next
    case False
    then show ?thesis by (simp add: c Let_def)
  qed
qed

lemma write_chunks_None_start:
  "\<exists>a more. c_artifact (write_chunks e None ws ((f, fw) # rest)) = Some a \<and> a_rows a = f_rows f @ more"
  using write_chunks_Some_start
    [of e "\<lparr>a_schema = table_schema e f, a_rows = f_rows f\<rparr>" "ws @ fw" rest]
  by (simp add: Let_def)

lemma CHUNKSIZE_pos: "0 < CHUNKSIZE"
  by (simp add: CHUNKSIZE_def)


section \<open>The layout of a file\<close>

text \<open>A header row of \<open>n\<close> fields gives a frame of \<open>n\<close> columns, with or without index
  columns.\<close>

lemma header_layout_ncols:
  assumes "length (header_labels e h) = length h"
  shows "\<exists>labels k data. header_layout e h d = (labels, length h, k, data) \<and> length labels = length h"
  using assms by (simp add: header_layout_def Let_def)


lemma header_layout_labels:
  "fst (header_layout e h d) =
     (if index_names_row (length h) d
      then map (dedup_name e (snd (hd d) @ header_labels e h))
             [length (snd (hd d))..<length (snd (hd d)) + length h]
      else header_labels e h)"
  by (simp add: header_layout_def Let_def)

lemma index_names_row_enumerate:
  "index_names_row n (enumerate i rs) =
     (case rs of line # next_line # _ \<Rightarrow> length next_line = length line + n | _ \<Rightarrow> False)"
  by (cases rs; simp add: index_names_row_def; cases "tl rs"; auto simp: index_names_row_def)

lemma index_names_row_hd:
  "index_names_row n (enumerate i rs) \<Longrightarrow> snd (hd (enumerate i rs)) = hd rs"
  by (cases rs) (simp_all add: index_names_row_def)

text \<open>Names that are forced on a file whose first record has as many fields leave no
  index column.\<close>

lemma names_layout:
  assumes "length ns = length r"
  shows "parse_layout e \<lparr>kw_header = None, kw_names = Some ns\<rparr> ((i, r) # rest)
           = Inr (ns, length r, 0, (i, r) # rest)"
  using assms by (cases ns) (simp_all add: parse_layout_def positional_layout_def implicit_first_cols_def)

text \<open>The v2 converter on a non-empty file, stage by stage: the sample of five records
  counts the columns and warns about its bad lines, the definitive read yields the
  batches of its layout, and the writer loop consumes them.\<close>

lemma csv_to_parquet_plan:
  fixes e csv_path content r rs
  defines "hp \<equiv> looks_like_header (first_line content)"
  defines "decided \<equiv> fst (choose_column_names (detect_base_from_filename csv_path) (length r) hp)"
  defines "nrecs \<equiv> (1, r) # enumerate 2 rs"
  assumes recs: "csv_records e content = r # rs"
      and lab: "length (header_labels e r) = length r"
  shows "\<exists>sw labels k data.
           csv_to_parquet e csv_path content
             = write_chunks e None sw
                 (map (\<lambda>batch. (\<lparr>f_labels = labels, f_rows = frame_rows e (length r) k batch\<rparr>,
                                  bad_line_warnings (length r + k) batch))
                    (chunks_of CHUNKSIZE data))
         \<and> (labels, length r, k, data)
             = (case decided of
                  Some ns \<Rightarrow> (ns, length r, 0, nrecs)
                | None \<Rightarrow> header_layout e r (enumerate 2 rs))
         \<and> sw = (if hp
                 then (case header_layout e r (enumerate 2 rs) of
                         (l, n, k', d) \<Rightarrow> bad_line_warnings (n + k') (take 5 d))
                 else bad_line_warnings (length r) (take 5 nrecs))"
proof -
  define sw where "sw = (if hp
                 then (case header_layout e r (enumerate 2 rs) of
                         (l, n, k', d) \<Rightarrow> bad_line_warnings (n + k') (take 5 d))
                 else bad_line_warnings (length r) (take 5 nrecs))"
  have nrecs: "numbered (csv_records e content) = nrecs"
    by (simp add: nrecs_def recs numbered_Cons)
  have "\<exists>sm. read_csv_nrows e
        \<lparr>kw_header = (if hp then Some 0 else None), kw_names = None\<rparr> 5 nrecs = Inr (sm, sw)
      \<and> length (f_labels sm) = length r"
  proof (cases hp)
    case True
    from header_layout_ncols [OF lab, of "enumerate 2 rs"]
    obtain labels k data where hl: "header_layout e r (enumerate 2 rs) = (labels, length r, k, data)"
      and ll: "length labels = length r"
      by (elim exE conjE)
    show ?thesis
      by (simp add: True read_csv_nrows_def parse_layout_def nrecs_def hl ll sw_def)
  next
    case False
    then show ?thesis
      by (simp add: read_csv_nrows_def parse_layout_def positional_layout_def nrecs_def sw_def)
  qed
  then obtain sm where s: "read_csv_nrows e
        \<lparr>kw_header = (if looks_like_header (first_line content) then Some 0 else None),
         kw_names = None\<rparr> 5 nrecs = Inr (sm, sw)"
    and n: "length (f_labels sm) = length r"
    unfolding hp_def by (elim exE conjE)
  have dec: "decided = None \<Longrightarrow> hp"
    unfolding decided_def by (rule choose_None_header)
  have w: "decided = Some ns \<Longrightarrow> length ns = length r" for ns
    unfolding decided_def by (rule choose_length)
  obtain labels k data where lay: "(labels, length r, k, data)
             = (case decided of
                  Some ns \<Rightarrow> (ns, length r, 0, nrecs)
                | None \<Rightarrow> header_layout e r (enumerate 2 rs))"
    using header_layout_ncols [OF lab, of "enumerate 2 rs"]
    by (cases decided) auto
  have pl: "parse_layout e (decide_read_kwargs decided hp) nrecs = Inr (labels, length r, k, data)"
  proof (cases decided)
    case None
    with dec lay show ?thesis
      by (simp add: decide_read_kwargs_def parse_layout_def nrecs_def)
  next
    case (Some ns)
    with lay names_layout [OF w [OF Some], of e 1 "enumerate 2 rs"] show ?thesis
      by (simp add: decide_read_kwargs_def nrecs_def)
  qed
  have "csv_to_parquet e csv_path content
       = write_chunks e None sw
           (map (\<lambda>batch. (\<lparr>f_labels = labels, f_rows = frame_rows e (length r) k batch\<rparr>,
                              bad_line_warnings (length r + k) batch)) (chunks_of CHUNKSIZE data))"
    unfolding csv_to_parquet_def Let_def nrecs s
    by (simp only: sum.case prod.case n hp_def [symmetric] decided_def [symmetric]
        read_csv_chunks_def pl)
  with lay show ?thesis
    unfolding sw_def by blast
qed

text \<open>The conversion of a non-empty file leaves an artifact, whose column names are the
  labels of the layout of the definitive read.\<close>

lemma csv_to_parquet_names:
  assumes recs: "csv_records e content = r # rs"
      and lab: "length (header_labels e r) = length r"
  shows "\<exists>a. c_artifact (csv_to_parquet e csv_path content) = Some a
           \<and> map fst (a_schema a) =
               (case fst (choose_column_names (detect_base_from_filename csv_path) (length r)
                            (looks_like_header (first_line content))) of
                  Some ns \<Rightarrow> ns
                | None \<Rightarrow> fst (header_layout e r (enumerate 2 rs)))"
proof -
  let ?decided = "fst (choose_column_names (detect_base_from_filename csv_path) (length r)
                            (looks_like_header (first_line content)))"
  from csv_to_parquet_plan [OF recs lab, of csv_path]
  obtain sw labels k data where conv: "csv_to_parquet e csv_path content
             = write_chunks e None sw
                 (map (\<lambda>batch. (\<lparr>f_labels = labels, f_rows = frame_rows e (length r) k batch\<rparr>,
                                  bad_line_warnings (length r + k) batch))
                    (chunks_of CHUNKSIZE data))"
    and lay: "(labels, length r, k, data)
             = (case ?decided of
                  Some ns \<Rightarrow> (ns, length r, 0, (1, r) # enumerate 2 rs)
                | None \<Rightarrow> header_layout e r (enumerate 2 rs))"
    by (elim exE conjE)
  obtain b bs where ch: "chunks_of CHUNKSIZE data = b # bs"
    using chunks_of_nonempty [of CHUNKSIZE data] by (cases "chunks_of CHUNKSIZE data") auto
  from write_chunks_None_start
    [of e sw "\<lparr>f_labels = labels, f_rows = frame_rows e (length r) k b\<rparr>"
       "bad_line_warnings (length r + k) b"
       "map (\<lambda>batch. (\<lparr>f_labels = labels, f_rows = frame_rows e (length r) k batch\<rparr>,
                        bad_line_warnings (length r + k) batch)) bs"]
  obtain a where art: "c_artifact (csv_to_parquet e csv_path content) = Some a"
    unfolding conv ch list.map by (elim exE conjE)
  from art have "a_schema a = table_schema e \<lparr>f_labels = labels, f_rows = frame_rows e (length r) k b\<rparr>"
    unfolding conv ch list.map by (rule write_chunks_first_schema)
  then have "map fst (a_schema a) = labels"
    by (simp add: map_fst_table_schema)
  moreover from lay have "labels = (case ?decided of Some ns \<Rightarrow> ns
                | None \<Rightarrow> fst (header_layout e r (enumerate 2 rs)))"
    by (cases ?decided) (auto simp: fst_conv dest: arg_cong [where f = fst])
  ultimately show ?thesis
    using art by simp
qed


section \<open>Schema precedence\<close>

text \<open>
  Claim C1 (schema precedence). The converter of v2 leaves an artifact for every file
  with at least one record; let the first record have \<open>n\<close> fields (the observed column
  count; the reader gives a header row of \<open>n\<close> fields \<open>n\<close> labels). If the dataset kind
  detected from the file name has a fixed list of \<open>n\<close> names, the artifact's column names
  are exactly that list, whether or not the first line looks like a header. If no fixed
  list matches, the names are the labels the reader makes of the header row when a header
  was detected, and the positional names \<^verbatim>\<open>col_00, col_01, ...\<close> otherwise. The labels
  of the header row are used as they are in every file but one whose second data record
  has as many fields as the first data record and the header row together: there the
  reader takes the first data record as a row of index names and passes the index names
  and the labels through \<^verbatim>\<open>dedup_names\<close>.
\<close>

theorem schema_precedence:
  assumes recs: "csv_records e content = r # rs"
      and lab: "length (header_labels e r) = length r"
  shows "\<exists>a. c_artifact (csv_to_parquet e csv_path content) = Some a
       \<and> (\<forall>t. COLS (detect_base_from_filename csv_path) = Some t \<and> length t = length r
            \<longrightarrow> map fst (a_schema a) = t)
       \<and> ((\<forall>t. COLS (detect_base_from_filename csv_path) = Some t \<longrightarrow> length t \<noteq> length r)
            \<longrightarrow> map fst (a_schema a) =
                (if looks_like_header (first_line content)
                 then (if index_names_row (length r) (enumerate 2 rs)
                       then map (dedup_name e (hd rs @ header_labels e r))
                              [length (hd rs)..<length (hd rs) + length r]
                       else header_labels e r)
                 else auto_names (length r)))"
proof -
  define base where "base = detect_base_from_filename csv_path"
  define hp where "hp = looks_like_header (first_line content)"
  define decided where "decided = fst (choose_column_names base (length r) hp)"
  from csv_to_parquet_names [OF recs lab, of csv_path]
  obtain a where art: "c_artifact (csv_to_parquet e csv_path content) = Some a"
    and names: "map fst (a_schema a) =
        (case decided of Some ns \<Rightarrow> ns | None \<Rightarrow> fst (header_layout e r (enumerate 2 rs)))"
    unfolding decided_def base_def hp_def by (elim exE conjE)
  have hl: "fst (header_layout e r (enumerate 2 rs)) =
      (if index_names_row (length r) (enumerate 2 rs)
       then map (dedup_name e (hd rs @ header_labels e r))
              [length (hd rs)..<length (hd rs) + length r]
       else header_labels e r)"
    by (simp add: header_layout_labels index_names_row_hd)
  have fixed: "map fst (a_schema a) = t"
    if "COLS (detect_base_from_filename csv_path) = Some t \<and> length t = length r" for t
  proof -
    from that have "decided = Some t"
      by (simp add: decided_def base_def choose_fixed)
    with names show ?thesis by simp
  qed
  have other: "map fst (a_schema a) =
                (if looks_like_header (first_line content)
                 then (if index_names_row (length r) (enumerate 2 rs)
                       then map (dedup_name e (hd rs @ header_labels e r))
                              [length (hd rs)..<length (hd rs) + length r]
                       else header_labels e r)
                 else auto_names (length r))"
    if "\<forall>t. COLS (detect_base_from_filename csv_path) = Some t \<longrightarrow> length t \<noteq> length r"
  proof -
    from that have "decided = (if hp then None else Some (auto_names (length r)))"
      unfolding decided_def base_def by (rule choose_other)
    with names hl show ?thesis
      by (simp add: hp_def)
  qed
  from art fixed other show ?thesis
    by blast
qed

text \<open>The three branches on concrete files: a file of the kind \<^verbatim>\<open>cnaes\<close> whose header row
  differs from the fixed list, a file of no known kind with a header row, and a file of
  no known kind without one.\<close>

theorem schema_precedence_witness:
  "(COLS (detect_base_from_filename ''work/csv_tmp/F.K03200$Z.D50712.CNAECSV.csv'')
      = Some [''codigo'', ''descricao'']
    \<and> looks_like_header (first_line (''Codigo CNAE;Descricao'' @ [CHR 0x0A] @ ''0111301;Cultivo de arroz'' @ [CHR 0x0A]))
    \<and> (\<exists>a. c_artifact (csv_to_parquet demo_env ''work/csv_tmp/F.K03200$Z.D50712.CNAECSV.csv''
              (''Codigo CNAE;Descricao'' @ [CHR 0x0A] @ ''0111301;Cultivo de arroz'' @ [CHR 0x0A])) = Some a
          \<and> map fst (a_schema a) = [''codigo'', ''descricao'']))
 \<and> (COLS (detect_base_from_filename ''work/csv_tmp/tabela.csv'') = None
    \<and> looks_like_header (first_line (''Nome Fantasia;UF'' @ [CHR 0x0A] @ ''ACME;MG'' @ [CHR 0x0A]))
    \<and> (\<exists>a. c_artifact (csv_to_parquet demo_env ''work/csv_tmp/tabela.csv''
              (''Nome Fantasia;UF'' @ [CHR 0x0A] @ ''ACME;MG'' @ [CHR 0x0A])) = Some a
          \<and> map fst (a_schema a) = [''Nome Fantasia'', ''UF'']))
 \<and> (\<not> looks_like_header (first_line (''01;02;03'' @ [CHR 0x0A] @ ''04;05;06'' @ [CHR 0x0A]))
    \<and> (\<exists>a. c_artifact (csv_to_parquet demo_env ''work/csv_tmp/tabela.csv''
              (''01;02;03'' @ [CHR 0x0A] @ ''04;05;06'' @ [CHR 0x0A])) = Some a
          \<and> map fst (a_schema a) = [''col_00'', ''col_01'', ''col_02'']))"
proof -
  let ?p1 = "''work/csv_tmp/F.K03200$Z.D50712.CNAECSV.csv''"
  let ?c1 = "''Codigo CNAE;Descricao'' @ [CHR 0x0A] @ ''0111301;Cultivo de arroz'' @ [CHR 0x0A]"
  let ?p2 = "''work/csv_tmp/tabela.csv''"
  let ?c2 = "''Nome Fantasia;UF'' @ [CHR 0x0A] @ ''ACME;MG'' @ [CHR 0x0A]"
  let ?c3 = "''01;02;03'' @ [CHR 0x0A] @ ''04;05;06'' @ [CHR 0x0A]"
  have rec1: "csv_records demo_env ?c1 = [''Codigo CNAE'', ''Descricao''] # [[''0111301'', ''Cultivo de arroz'']]"
    by (simp add: demo_env_def plain_records_def)
  have lab1: "length (header_labels demo_env [''Codigo CNAE'', ''Descricao'']) = length [''Codigo CNAE'', ''Descricao'']"
    by (simp add: demo_env_def)
  have cols1: "COLS (detect_base_from_filename ?p1) = Some [''codigo'', ''descricao'']"
    by (simp add: conv_eval)
  have hp1: "looks_like_header (first_line ?c1)"
    by (simp add: conv_eval)
  from schema_precedence [OF rec1 lab1, of ?p1] cols1
  have n1: "\<exists>a. c_artifact (csv_to_parquet demo_env ?p1 ?c1) = Some a
          \<and> map fst (a_schema a) = [''codigo'', ''descricao'']"
    by auto
  have rec2: "csv_records demo_env ?c2 = [''Nome Fantasia'', ''UF''] # [[''ACME'', ''MG'']]"
    by (simp add: demo_env_def plain_records_def)
  have lab2: "length (header_labels demo_env [''Nome Fantasia'', ''UF'']) = length [''Nome Fantasia'', ''UF'']"
    by (simp add: demo_env_def)
  have cols2: "COLS (detect_base_from_filename ?p2) = None"
    by (simp add: conv_eval)
  have hp2: "looks_like_header (first_line ?c2)"
    by (simp add: conv_eval)
  have ix2: "\<not> index_names_row (length [''Nome Fantasia'', ''UF'']) (enumerate 2 [[''ACME'', ''MG'']])"
    by (simp add: index_names_row_def)
  from schema_precedence [OF rec2 lab2, of ?p2] cols2 hp2 ix2
  have n2: "\<exists>a. c_artifact (csv_to_parquet demo_env ?p2 ?c2) = Some a
          \<and> map fst (a_schema a) = [''Nome Fantasia'', ''UF'']"
    by (auto simp: demo_env_def)
  have rec3: "csv_records demo_env ?c3 = [''01'', ''02'', ''03''] # [[''04'', ''05'', ''06'']]"
    by (simp add: demo_env_def plain_records_def)
  have lab3: "length (header_labels demo_env [''01'', ''02'', ''03'']) = length [''01'', ''02'', ''03'']"
    by (simp add: demo_env_def)
  have hp3: "\<not> looks_like_header (first_line ?c3)"
    by (simp add: conv_eval)
  have an3: "auto_names (length [''01'', ''02'', ''03'']) = [''col_00'', ''col_01'', ''col_02'']"
    by (simp add: auto_names_def fmt_02d_def digit_char_def upt_rec str_nat.simps)
  from schema_precedence [OF rec3 lab3, of ?p2] cols2 hp3 an3
  have n3: "\<exists>a. c_artifact (csv_to_parquet demo_env ?p2 ?c3) = Some a
          \<and> map fst (a_schema a) = [''col_00'', ''col_01'', ''col_02'']"
    by auto
  from cols1 hp1 n1 cols2 hp2 n2 hp3 n3 show ?thesis
    by (intro conjI)
qed



section \<open>Header rows and malformed rows\<close>

text \<open>
  Claim C9 (a detected header line is read as data when names are forced). Let the first
  line of the file look like a header, and let \<^verbatim>\<open>choose_column_names\<close> decide on names
  (\<^verbatim>\<open>decided_names is not None\<close>; with a header present these are the fixed names of the
  dictionary). Then the definitive read is made with \<^verbatim>\<open>header=None\<close> and these names, the
  conversion leaves an artifact, and the first row of the artifact is the first record of
  the file, the header line, cell by cell.
\<close>

theorem header_line_read_as_data:
  assumes recs: "csv_records e content = r # rs"
      and lab: "length (header_labels e r) = length r"
      and hp: "looks_like_header (first_line content)"
      and dec: "fst (choose_column_names (detect_base_from_filename csv_path) (length r) True) = Some ns"
  shows "decide_read_kwargs (Some ns) True = \<lparr>kw_header = None, kw_names = Some ns\<rparr>
       \<and> (\<exists>a more. c_artifact (csv_to_parquet e csv_path content) = Some a
                   \<and> a_rows a = map (to_cell e) r # more)"
proof -
  from csv_to_parquet_plan [OF recs lab, of csv_path] hp dec
  obtain ws where conv: "csv_to_parquet e csv_path content =
      write_chunks e None ws
        (map (\<lambda>batch. (\<lparr>f_labels = ns, f_rows = frame_rows e (length r) 0 batch\<rparr>,
                         bad_line_warnings (length r + 0) batch))
           (chunks_of CHUNKSIZE ((1, r) # enumerate 2 rs)))"
    by auto
  from chunks_of_Cons [OF CHUNKSIZE_pos, of "(1, r)" "enumerate 2 rs"]
  obtain ys yss where ch: "chunks_of CHUNKSIZE ((1, r) # enumerate 2 rs) = ((1, r) # ys) # yss"
    by blast
  have first: "frame_rows e (length r) 0 ((i, r) # ys) = map (to_cell e) r # good_rows e (length r) ys"
    for i by (simp add: frame_rows_def good_rows_def pad_row_def)
  from write_chunks_None_start
    [of e ws "\<lparr>f_labels = ns, f_rows = frame_rows e (length r) 0 ((1, r) # ys)\<rparr>"
       "bad_line_warnings (length r + 0) ((1, r) # ys)"
       "map (\<lambda>batch. (\<lparr>f_labels = ns, f_rows = frame_rows e (length r) 0 batch\<rparr>,
                         bad_line_warnings (length r + 0) batch)) yss"]
  have "\<exists>a more. c_artifact (csv_to_parquet e csv_path content) = Some a
                   \<and> a_rows a = map (to_cell e) r # more"
    unfolding conv ch list.map by (auto simp: first)
  then show ?thesis
    by (simp add: decide_read_kwargs_def)
qed


text \<open>An empty file makes both converters raise before a writer is opened.\<close>

lemma empty_file_fails:
  assumes "csv_records e content = []"
  shows "csv_to_parquet e csv_path content
           = \<lparr>c_error = Some EmptyDataError, c_artifact = None, c_warnings = []\<rparr>"
    and "csv_to_parquet_with_duckdb e csv_path content
           = \<lparr>c_error = Some EmptyDataError, c_artifact = None, c_warnings = []\<rparr>"
  using assms
  by (simp_all add: csv_to_parquet_def csv_to_parquet_with_duckdb_def read_csv_nrows_def
      read_csv_chunks_def parse_layout_def positional_layout_def numbered_def Let_def)


lemmas row_eval =
  demo_env_def plain_records_def plain_type_def
  detect_base_from_filename_def DETECT_MAP_def lower_def lower_char_def is_upper_def
  path_name_def path_parts_def startswith_def looks_like_header_def first_line_def
  CSV_DELIM_def is_label_char_def good_rows_def bad_line_warnings_def CHUNKSIZE_def
  choose_column_names_def COLS_def to_cell_def pad_row_def Let_def
  index_names_row_def implicit_first_cols_def



text \<open>Index columns that the header row does not name. A header row of two labels; the
  first data record has three fields, so its first field and that of every other record
  is an implicit index: no record is too long, none is reported, and each row holds the
  cells after the index cell. Then a header row of two labels followed by a record of
  two fields and one of four: the record of two fields is a row of index names, and the
  row of the artifact holds the last two cells of the record of four.\<close>

lemma implicit_index_example:
  "csv_to_parquet_with_duckdb demo_env ''work/csv_tmp/tabela.csv''
     (''a;b'' @ [CHR 0x0A] @ ''1;2;3'' @ [CHR 0x0A] @ ''4;5'' @ [CHR 0x0A])
   = \<lparr>c_error = None,
      c_artifact = Some \<lparr>a_schema = [(''a'', 1), (''b'', 1)],
                         a_rows = [[Some ''2'', Some ''3''], [Some ''5'', None]]\<rparr>,
      c_warnings = []\<rparr>"
  by (simp add: conv_eval)

lemma index_names_row_example:
  "csv_to_parquet_with_duckdb demo_env ''work/csv_tmp/tabela.csv''
     (''a;b'' @ [CHR 0x0A] @ ''x;y'' @ [CHR 0x0A] @ ''1;2;3;4'' @ [CHR 0x0A])
   = \<lparr>c_error = None,
      c_artifact = Some \<lparr>a_schema = [(''a'', 1), (''b'', 1)],
                         a_rows = [[Some ''3'', Some ''4'']]\<rparr>,
      c_warnings = []\<rparr>"
  by (simp add: conv_eval upt_rec)

text \<open>The file of kind \<^verbatim>\<open>cnaes\<close> with a header row: the header row is the first row of the
  artifact.\<close>

theorem header_line_read_as_data_witness:
  "looks_like_header (first_line (''Codigo CNAE;Descricao'' @ [CHR 0x0A] @ ''0111301;Cultivo de arroz'' @ [CHR 0x0A]))
   \<and> fst (choose_column_names (detect_base_from_filename ''work/csv_tmp/F.K03200$Z.D50712.CNAECSV.csv'') 2 True)
       = Some [''codigo'', ''descricao'']
   \<and> (\<exists>a more. c_artifact (csv_to_parquet demo_env ''work/csv_tmp/F.K03200$Z.D50712.CNAECSV.csv''
         (''Codigo CNAE;Descricao'' @ [CHR 0x0A] @ ''0111301;Cultivo de arroz'' @ [CHR 0x0A])) = Some a
        \<and> a_rows a = [Some ''Codigo CNAE'', Some ''Descricao''] # more)"
proof -
  let ?c = "''Codigo CNAE;Descricao'' @ [CHR 0x0A] @ ''0111301;Cultivo de arroz'' @ [CHR 0x0A]"
  let ?p = "''work/csv_tmp/F.K03200$Z.D50712.CNAECSV.csv''"
  have rec: "csv_records demo_env ?c = [''Codigo CNAE'', ''Descricao''] # [[''0111301'', ''Cultivo de arroz'']]"
    by (simp add: demo_env_def plain_records_def)
  have lab: "length (header_labels demo_env [''Codigo CNAE'', ''Descricao'']) = length [''Codigo CNAE'', ''Descricao'']"
    by (simp add: demo_env_def)
  have hp: "looks_like_header (first_line ?c)"
    by (simp add: row_eval)
  have dec: "fst (choose_column_names (detect_base_from_filename ?p) (length [''Codigo CNAE'', ''Descricao'']) True)
       = Some [''codigo'', ''descricao'']"
    by (simp add: row_eval)
  from header_line_read_as_data [OF rec lab hp dec] hp dec
  show ?thesis
    by (simp add: demo_env_def to_cell_def numeral_2_eq_2)
qed



section \<open>Canonical names\<close>


lemma digit_char_cases:
  "d < 10 \<Longrightarrow> d = 0 \<or> d = 1 \<or> d = 2 \<or> d = 3 \<or> d = 4 \<or> d = 5 \<or> d = 6 \<or> d = 7 \<or> d = 8 \<or> d = (9::nat)"
  by arith

lemma digit_char_is_digit: "d < 10 \<Longrightarrow> is_digit (digit_char d)"
  by (drule digit_char_cases) (auto simp: digit_char_def is_digit_def)

lemma digit_char_val: "d < 10 \<Longrightarrow> (of_char (digit_char d) :: nat) = 48 + d"
  by (drule digit_char_cases) (auto simp: digit_char_def)

lemma str_nat_digits: "list_all is_digit (str_nat n)"
proof (induction n rule: str_nat.induct)
  case (1 n)
  show ?case
  proof (cases "n < 10")
    case True
    then show ?thesis by (subst str_nat.simps) (simp add: digit_char_is_digit)
  next
    case False
    with 1 show ?thesis by (subst str_nat.simps) (simp add: digit_char_is_digit)
  qed
qed

lemma str_nat_nonempty: "str_nat n \<noteq> []"
  by (subst str_nat.simps) simp

lemma digits_val_str_nat: "digits_val (str_nat n) = n"
proof (induction n rule: str_nat.induct)
  case (1 n)
  show ?case
  proof (cases "n < 10")
    case True
    then show ?thesis
      by (subst str_nat.simps) (simp add: digits_val_def digit_char_val)
  next
    case False
    with 1 have "digits_val (str_nat (n div 10)) = n div 10" by simp
    with False show ?thesis
      by (subst str_nat.simps) (simp add: digits_val_def digit_char_val)
  qed
qed

lemma digits_val_fmt_02d: "digits_val (fmt_02d i) = i"
proof (cases "i < 10")
  case True
  have "str_nat i = [digit_char i]" using True by (subst str_nat.simps) simp
  with True show ?thesis by (simp add: fmt_02d_def digits_val_def digit_char_val)
next
  case False
  then show ?thesis by (simp add: fmt_02d_def digits_val_str_nat)
qed

lemma fmt_02d_inj: "fmt_02d i = fmt_02d j \<Longrightarrow> i = j"
  by (metis digits_val_fmt_02d)

lemma fmt_02d_digits: "list_all is_digit (fmt_02d i) \<and> fmt_02d i \<noteq> []"
  by (simp add: fmt_02d_def str_nat_digits str_nat_nonempty is_digit_def)

lemma auto_names_distinct: "distinct (auto_names n)"
  by (auto simp: auto_names_def distinct_map inj_on_def dest: fmt_02d_inj)

lemma digit_not_sep: "is_digit c \<Longrightarrow> c \<noteq> CHR ''_'' \<and> is_canon_char c"
  by (auto simp: is_digit_def is_canon_char_def is_alnum_lc_def Let_def)

lemma no_double_sep_no_sep: "list_all (\<lambda>c. c \<noteq> CHR ''_'') s \<Longrightarrow> no_double_sep s"
  by (induction s rule: no_double_sep.induct) auto

lemma canonical_col: "list_all is_digit ds \<Longrightarrow> ds \<noteq> [] \<Longrightarrow> canonical_name (''col_'' @ ds)"
proof -
  assume d: "list_all is_digit ds" and ne: "ds \<noteq> []"
  then obtain x xs where ds: "ds = x # xs" by (cases ds) auto
  from d have a: "list_all is_canon_char ds" and b: "list_all (\<lambda>c. c \<noteq> CHR ''_'') ds"
    by (auto simp: list_all_iff dest: digit_not_sep)
  from b have "no_double_sep ds" by (rule no_double_sep_no_sep)
  with a b show ?thesis
    by (simp add: canonical_name_def ds is_canon_char_def is_alnum_lc_def)
qed

lemma auto_names_canonical: "list_all canonical_name (auto_names n)"
proof -
  have "canonical_name (''col_'' @ fmt_02d i)" for i
    by (rule canonical_col) (simp_all add: fmt_02d_digits)
  then show ?thesis
    by (simp add: auto_names_def list_all_iff)
qed

lemma COLS_canonical: "COLS base = Some t \<Longrightarrow> list_all canonical_name t \<and> distinct t"
  by (auto simp: COLS_def canonical_name_def is_canon_char_def is_alnum_lc_def split: if_splits)


lemma sub_non_alnum_chars: "list_all is_canon_char (sub_non_alnum s)"
  by (induction s rule: sub_non_alnum.induct) (auto simp: is_canon_char_def)

lemma set_collapse_us: "set (collapse_us s) \<subseteq> set s"
proof (induction s rule: collapse_us.induct)
  case 1
  then show ?case by simp
next
  case (2 c cs)
  show ?case
  proof (cases "c = CHR ''_''")
    case True
    with 2 have "set (collapse_us (dropWhile (\<lambda>x. x = CHR ''_'') cs)) \<subseteq> set cs"
      using set_dropWhileD by fastforce
    with True show ?thesis by auto
  next
    case False
    with 2 show ?thesis by auto
  qed
qed

lemma no_double_sep_Cons:
  "no_double_sep (c # xs) = ((c \<noteq> CHR ''_'' \<or> xs = [] \<or> hd xs \<noteq> CHR ''_'') \<and> no_double_sep xs)"
  by (cases xs) auto

lemma collapse_us_hd: "s \<noteq> [] \<Longrightarrow> collapse_us s \<noteq> [] \<and> hd (collapse_us s) = hd s"
  by (cases s) auto

lemma dropWhile_hd: "dropWhile P s \<noteq> [] \<Longrightarrow> \<not> P (hd (dropWhile P s))"
  by (metis hd_dropWhile)

lemma no_double_sep_collapse_us: "no_double_sep (collapse_us s)"
proof (induction s rule: collapse_us.induct)
  case 1
  then show ?case by simp
next
  case (2 c cs)
  show ?case
  proof (cases "c = CHR ''_''")
    case True
    let ?d = "dropWhile (\<lambda>x. x = CHR ''_'') cs"
    from 2 True have ih: "no_double_sep (collapse_us ?d)" by simp
    have "collapse_us ?d = [] \<or> hd (collapse_us ?d) \<noteq> CHR ''_''"
    proof (cases "?d = []")
      case True
      then show ?thesis by (metis collapse_us.simps(1))
    next
      case False
      with collapse_us_hd [OF False] dropWhile_hd [OF False] show ?thesis by simp
    qed
    with ih True show ?thesis by (simp add: no_double_sep_Cons)
  next
    case False
    with 2 show ?thesis by (simp add: no_double_sep_Cons)
  qed
qed

lemma no_double_sep_tl: "no_double_sep (a # l) \<Longrightarrow> no_double_sep l"
  by (simp add: no_double_sep_Cons)

lemma no_double_sep_append_right: "no_double_sep (xs @ ys) \<Longrightarrow> no_double_sep ys"
  by (induction xs) (auto dest: no_double_sep_tl)

lemma no_double_sep_append_left: "no_double_sep (xs @ ys) \<Longrightarrow> no_double_sep xs"
proof (induction xs rule: no_double_sep.induct)
  case (1 a b r)
  then show ?case by simp
qed simp_all

lemma strip_where_parts: "\<exists>pre post. s = pre @ strip_where P s @ post"
proof -
  let ?d = "dropWhile P s"
  have 1: "s = takeWhile P s @ ?d" by simp
  have 2: "?d = strip_where P s @ rev (takeWhile P (rev ?d))"
    unfolding strip_where_def by (metis rev_append rev_rev_ident takeWhile_dropWhile_id)
  from 1 2 have "s = takeWhile P s @ strip_where P s @ rev (takeWhile P (rev ?d))"
    by simp
  then show ?thesis by blast
qed

lemma canonical_strip_where: "canonical_name s \<Longrightarrow> canonical_name (strip_where P s)"
proof -
  assume c: "canonical_name s"
  obtain pre post where s: "s = pre @ strip_where P s @ post"
    using strip_where_parts by blast
  from c have "list_all is_canon_char (pre @ strip_where P s @ post)"
    and "no_double_sep (pre @ strip_where P s @ post)"
    using s by (simp_all add: canonical_name_def)
  then show ?thesis
    by (auto simp: canonical_name_def dest: no_double_sep_append_right no_double_sep_append_left)
qed

lemma to_sql_name_canonical: "canonical_name (to_sql_name u raw)"
proof -
  let ?s = "sub_non_alnum (strip_where is_space (lower (u raw)))"
  have "list_all is_canon_char (collapse_us ?s)"
    using sub_non_alnum_chars [of "strip_where is_space (lower (u raw))"] set_collapse_us [of ?s]
    by (auto simp: list_all_iff)
  then have "canonical_name (collapse_us ?s)"
    by (simp add: canonical_name_def no_double_sep_collapse_us)
  then show ?thesis
    unfolding to_sql_name_def Let_def by (rule canonical_strip_where)
qed

text \<open>\<^verbatim>\<open>unique\<close> records only the names it is given, not the names it makes: a made name can
  meet a later given name.\<close>

lemma unique_collision: "unique [''a'', ''a'', ''a_2''] = [''a'', ''a_2'', ''a_2'']"
  by (simp add: unique_def Let_def str_nat.simps digit_char_def)


lemma choose_canonical:
  "fst (choose_column_names base n hp) = Some ns \<Longrightarrow> list_all canonical_name ns \<and> distinct ns"
  by (auto simp: choose_column_names_def auto_names_canonical auto_names_distinct
      dest: COLS_canonical split: option.splits if_splits)

text \<open>
  Claim C8 (name normalization), as amended. The ingest does not normalize names. When
  \<^verbatim>\<open>choose_column_names\<close> decides on names (the fixed list of the dictionary or the
  positional names), the artifact carries exactly these, and they are in canonical form
  and pairwise distinct as they stand. When it defers to the header, the artifact carries
  the labels the reader makes of the header row, as they are (in a file whose second data
  record has as many fields as the first data record and the header row together, the
  reader takes the first data record as a row of index names and passes the index names
  and the labels through \<^verbatim>\<open>dedup_names\<close> first). Canonical form is produced by
  \<^verbatim>\<open>to_sql_name\<close> of the separate renaming script, whatever the transliteration \<open>u\<close>
  returns.
\<close>

theorem column_names_canonical:
  assumes art: "c_artifact (csv_to_parquet e csv_path content) = Some a"
      and recs: "csv_records e content = r # rs"
      and lab: "length (header_labels e r) = length r"
  shows "(\<forall>ns. fst (choose_column_names (detect_base_from_filename csv_path) (length r)
                    (looks_like_header (first_line content))) = Some ns
              \<longrightarrow> map fst (a_schema a) = ns \<and> list_all canonical_name ns \<and> distinct ns)
       \<and> (fst (choose_column_names (detect_base_from_filename csv_path) (length r)
                    (looks_like_header (first_line content))) = None
              \<longrightarrow> map fst (a_schema a) =
                    (if index_names_row (length r) (enumerate 2 rs)
                     then map (dedup_name e (hd rs @ header_labels e r))
                            [length (hd rs)..<length (hd rs) + length r]
                     else header_labels e r))
       \<and> canonical_name (to_sql_name u raw)"
proof -
  from csv_to_parquet_names [OF recs lab, of csv_path] art
  have names: "map fst (a_schema a) =
               (case fst (choose_column_names (detect_base_from_filename csv_path) (length r)
                            (looks_like_header (first_line content))) of
                  Some ns \<Rightarrow> ns
                | None \<Rightarrow> fst (header_layout e r (enumerate 2 rs)))"
    by auto
  have hl: "fst (header_layout e r (enumerate 2 rs)) =
      (if index_names_row (length r) (enumerate 2 rs)
       then map (dedup_name e (hd rs @ header_labels e r))
              [length (hd rs)..<length (hd rs) + length r]
       else header_labels e r)"
    by (simp add: header_layout_labels index_names_row_hd)
  from names hl to_sql_name_canonical [of u raw] show ?thesis
    by (auto dest: choose_canonical)
qed

text \<open>A file whose names come from the dictionary, a file whose names come from its header,
  and a label put into canonical form.\<close>

theorem column_names_canonical_witness:
  "(c_artifact (csv_to_parquet demo_env ''work/csv_tmp/F.K03200$Z.D50712.CNAECSV.csv''
       (''Codigo CNAE;Descricao'' @ [CHR 0x0A] @ ''0111301;Cultivo de arroz'' @ [CHR 0x0A]))
      = Some \<lparr>a_schema = [(''codigo'', 1), (''descricao'', 1)],
              a_rows = [[Some ''Codigo CNAE'', Some ''Descricao''], [Some ''0111301'', Some ''Cultivo de arroz'']]\<rparr>
    \<and> fst (choose_column_names (detect_base_from_filename ''work/csv_tmp/F.K03200$Z.D50712.CNAECSV.csv'') 2
          (looks_like_header (first_line (''Codigo CNAE;Descricao'' @ [CHR 0x0A] @ ''0111301;Cultivo de arroz'' @ [CHR 0x0A]))))
      = Some [''codigo'', ''descricao'']
    \<and> list_all canonical_name [''codigo'', ''descricao''] \<and> distinct [''codigo'', ''descricao''])
 \<and> (c_artifact (csv_to_parquet demo_env ''work/csv_tmp/tabela.csv''
       (''Nome Fantasia;UF'' @ [CHR 0x0A] @ ''ACME;MG'' @ [CHR 0x0A]))
      = Some \<lparr>a_schema = [(''Nome Fantasia'', 1), (''UF'', 1)], a_rows = [[Some ''ACME'', Some ''MG'']]\<rparr>
    \<and> fst (choose_column_names (detect_base_from_filename ''work/csv_tmp/tabela.csv'') 2
          (looks_like_header (first_line (''Nome Fantasia;UF'' @ [CHR 0x0A] @ ''ACME;MG'' @ [CHR 0x0A]))))
      = None
    \<and> \<not> index_names_row 2 (enumerate 2 [[''ACME'', ''MG'']])
    \<and> map fst [(''Nome Fantasia'', 1::nat), (''UF'', 1)] = header_labels demo_env [''Nome Fantasia'', ''UF''])
 \<and> to_sql_name (\<lambda>s. s) ''Nome Fantasia'' = ''nome_fantasia''
 \<and> canonical_name ''nome_fantasia''"
proof -
  let ?p1 = "''work/csv_tmp/F.K03200$Z.D50712.CNAECSV.csv''"
  let ?c1 = "''Codigo CNAE;Descricao'' @ [CHR 0x0A] @ ''0111301;Cultivo de arroz'' @ [CHR 0x0A]"
  let ?a1 = "\<lparr>a_schema = [(''codigo'', 1), (''descricao'', 1)],
          a_rows = [[Some ''Codigo CNAE'', Some ''Descricao''], [Some ''0111301'', Some ''Cultivo de arroz'']]\<rparr>"
  let ?p2 = "''work/csv_tmp/tabela.csv''"
  let ?c2 = "''Nome Fantasia;UF'' @ [CHR 0x0A] @ ''ACME;MG'' @ [CHR 0x0A]"
  let ?a2 = "\<lparr>a_schema = [(''Nome Fantasia'', 1), (''UF'', 1)], a_rows = [[Some ''ACME'', Some ''MG'']]\<rparr>"
  have art1: "c_artifact (csv_to_parquet demo_env ?p1 ?c1) = Some ?a1"
    by (simp add: conv_eval)
  have rec1: "csv_records demo_env ?c1 = [''Codigo CNAE'', ''Descricao''] # [[''0111301'', ''Cultivo de arroz'']]"
    by (simp add: demo_env_def plain_records_def)
  have lab1: "length (header_labels demo_env [''Codigo CNAE'', ''Descricao'']) = length [''Codigo CNAE'', ''Descricao'']"
    by (simp add: demo_env_def)
  have d1: "fst (choose_column_names (detect_base_from_filename ?p1) 2 (looks_like_header (first_line ?c1)))
      = Some [''codigo'', ''descricao'']"
    by (simp add: row_eval)
  have art2: "c_artifact (csv_to_parquet demo_env ?p2 ?c2) = Some ?a2"
    by (simp add: conv_eval)
  have rec2: "csv_records demo_env ?c2 = [''Nome Fantasia'', ''UF''] # [[''ACME'', ''MG'']]"
    by (simp add: demo_env_def plain_records_def)
  have lab2: "length (header_labels demo_env [''Nome Fantasia'', ''UF'']) = length [''Nome Fantasia'', ''UF'']"
    by (simp add: demo_env_def)
  have d2: "fst (choose_column_names (detect_base_from_filename ?p2) 2 (looks_like_header (first_line ?c2)))
      = None"
    by (simp add: row_eval)
  have ix2: "\<not> index_names_row 2 (enumerate 2 [[''ACME'', ''MG'']])"
    by (simp add: index_names_row_def)
  have t: "to_sql_name (\<lambda>s. s) ''Nome Fantasia'' = ''nome_fantasia''"
    by (simp add: to_sql_name_def strip_where_def lower_def lower_char_def is_upper_def is_space_def
        is_alnum_lc_def Let_def)
  from column_names_canonical [OF art1 rec1 lab1, of "\<lambda>s. s" "''Nome Fantasia''"] d1
  have 1: "list_all canonical_name [''codigo'', ''descricao''] \<and> distinct [''codigo'', ''descricao'']
           \<and> canonical_name (to_sql_name (\<lambda>s. s) ''Nome Fantasia'')"
    by (simp add: numeral_2_eq_2)
  from column_names_canonical [OF art2 rec2 lab2, of "\<lambda>s. s" "''Nome Fantasia''"] d2 ix2
  have 2: "map fst [(''Nome Fantasia'', 1::nat), (''UF'', 1)] = header_labels demo_env [''Nome Fantasia'', ''UF'']"
    by (simp add: numeral_2_eq_2)
  from 1 2 art1 art2 d1 d2 ix2 t show ?thesis
    by simp
qed

text \<open>
  Claim C8 as stated fails in the header branch: a file of no known kind with the header
  \<^verbatim>\<open>Nome Fantasia;UF\<close> gets an artifact whose column names are these two labels, neither
  of them in canonical form.
\<close>

theorem header_names_not_canonical:
  "c_artifact (csv_to_parquet demo_env ''work/csv_tmp/tabela.csv''
      (''Nome Fantasia;UF'' @ [CHR 0x0A] @ ''ACME;MG'' @ [CHR 0x0A]))
     = Some \<lparr>a_schema = [(''Nome Fantasia'', 1), (''UF'', 1)], a_rows = [[Some ''ACME'', Some ''MG'']]\<rparr>
   \<and> \<not> canonical_name ''Nome Fantasia'' \<and> \<not> canonical_name ''UF''"
  by (simp add: conv_eval canonical_name_def is_canon_char_def is_alnum_lc_def)



section \<open>Archive index resolver\<close>


lemma match_href_shorter: "match_href s = Some (run, rest) \<Longrightarrow> length rest < length s"
proof -
  assume m: "match_href s = Some (run, rest)"
  then obtain q where "drop (6 + length (takeWhile (\<lambda>c. c \<noteq> dquote) (drop 6 s))) s = q # rest"
    by (auto simp: match_href_def Let_def split: if_splits list.splits)
  then have "length (q # rest) = length s - (6 + length (takeWhile (\<lambda>c. c \<noteq> dquote) (drop 6 s)))"
    by (metis length_drop)
  then show ?thesis by simp
qed

lemma findall_zip_Cons:
  "findall_zip (c # cs) =
     (case match_href (c # cs) of
        Some (run, rest) \<Rightarrow> run # findall_zip rest
      | None \<Rightarrow> findall_zip cs)"
  by (auto split: option.splits dest: match_href_shorter)

lemma sort_remdups_Nil: "(sort (remdups ys) = []) = (ys = [])"
proof -
  have "set (sort (remdups ys)) = set ys" by simp
  then show ?thesis by (metis set_empty)
qed

lemma those_map_None: "(those (map f xs) = None) = (\<exists>x\<in>set xs. f x = None)"
  by (induction xs) (auto split: option.splits)

lemma those_map_Some: "those (map f xs) = Some ys \<Longrightarrow> map Some ys = map f xs"
  by (induction xs arbitrary: ys) (auto split: option.splits)

lemma those_map_Nil: "those (map f xs) = Some ys \<Longrightarrow> (ys = []) = (xs = [])"
  by (drule those_map_Some) (cases xs; cases ys; simp)

lemma list_zip_links_world: "snd (list_zip_links e base w) = log_request base None w"
  by (auto simp: list_zip_links_def Let_def split: http_result.splits option.splits)

text \<open>
  Claim C7 (index resolution), as amended. Whenever \<^verbatim>\<open>list_zip_links\<close> returns, the list it
  returns has no duplicates, is sorted in the order of strings, and holds exactly the
  archive references found in the body of the listing, each joined to the base URL. It
  raises if and only if the fetch fails (no answer, a connection that breaks, or a status
  that \<^verbatim>\<open>raise_for_status\<close> rejects), or a reference found in the body cannot be joined to
  the base URL, or no archive reference is found in the body. In every case its only
  effect is the one request for the listing.
\<close>

theorem index_resolution:
  "(\<forall>zips. fst (list_zip_links e base w) = Inr zips \<longrightarrow>
        distinct zips \<and> sorted zips \<and>
        (\<exists>st body. http_get e base None = Response st body False
           \<and> Some ` set zips = urljoin e base ` set (findall_zip (response_text e body))))
   \<and> ((\<exists>err. fst (list_zip_links e base w) = Inl err) \<longleftrightarrow>
        (case http_get e base None of
           NoConnection \<Rightarrow> True
         | Response st body broken \<Rightarrow>
             broken \<or> raise_for_status st \<noteq> None
             \<or> (\<exists>href\<in>set (findall_zip (response_text e body)). urljoin e base href = None)
             \<or> findall_zip (response_text e body) = []))
   \<and> snd (list_zip_links e base w) = log_request base None w"
proof -
  have sets: "Some ` set ys = f ` set xs" if "those (map f xs) = Some ys" for f :: "string \<Rightarrow> string option" and xs ys
  proof -
    from those_map_Some [OF that] have "set (map Some ys) = set (map f xs)" by simp
    then show ?thesis by simp
  qed
  have a: "distinct zips \<and> sorted zips \<and>
        (\<exists>st body. http_get e base None = Response st body False
           \<and> Some ` set zips = urljoin e base ` set (findall_zip (response_text e body)))"
    if "fst (list_zip_links e base w) = Inr zips" for zips
    using that
    by (auto simp: list_zip_links_def Let_def dest!: sets
        split: http_result.splits option.splits if_splits)
  have b: "(\<exists>err. fst (list_zip_links e base w) = Inl err) \<longleftrightarrow>
        (case http_get e base None of
           NoConnection \<Rightarrow> True
         | Response st body broken \<Rightarrow>
             broken \<or> raise_for_status st \<noteq> None
             \<or> (\<exists>href\<in>set (findall_zip (response_text e body)). urljoin e base href = None)
             \<or> findall_zip (response_text e body) = [])"
  proof (cases "http_get e base None")
    case NoConnection
    then show ?thesis by (simp add: list_zip_links_def)
  next
    case (Response st body broken)
    show ?thesis
    proof (cases "broken \<or> raise_for_status st \<noteq> None")
      case True
      then show ?thesis
        by (auto simp: list_zip_links_def Response Let_def)
    next
      case False
      show ?thesis
      proof (cases "those (map (urljoin e base) (findall_zip (response_text e body)))")
        case None
        with False those_map_None [of "urljoin e base" "findall_zip (response_text e body)"]
        show ?thesis
          by (auto simp: list_zip_links_def Response Let_def)
      next
        case (Some joined)
        with those_map_None [of "urljoin e base" "findall_zip (response_text e body)"]
        have all: "\<not> (\<exists>href\<in>set (findall_zip (response_text e body)). urljoin e base href = None)"
          by simp
        from False Some all those_map_Nil [OF Some] show ?thesis
          by (simp add: list_zip_links_def Response Let_def sort_remdups_Nil)
      qed
    qed
  qed
  from a b list_zip_links_world [of e base w] show ?thesis
    by blast
qed

lemmas net_eval = list_zip_links_def log_request_def raise_for_status_def findall_zip_Cons
  match_href_def dquote_def lower_def lower_char_def is_upper_def endswith_def Let_def
  demo_urljoin_def startswith_def

lemmas path_eval = parquet_path_of_def zip_name_of_def rstrip_char_def pjoin_def path_name_def
  path_parts_def name_stem_def

lemma demo_findall: "findall_zip demo_listing = [''Empresas0.zip'', ''Cnaes.ZIP'', ''Empresas0.zip'']"
  by (simp add: demo_listing_def net_eval)

lemma bracket_findall: "findall_zip bracket_listing = [''//[x.zip'']"
  by (simp add: bracket_listing_def net_eval)


text \<open>A listing with a repeated and an upper-case reference, a listing answered with
  status 404, and a listing without references.\<close>

theorem index_resolution_witness:
  "fst (list_zip_links (demo_env\<lparr>http_get := \<lambda>url rng. Response 200 demo_listing False\<rparr>)
          ''http://rf/2025-07/'' empty_world)
     = Inr [''http://rf/2025-07/Cnaes.ZIP'', ''http://rf/2025-07/Empresas0.zip'']
   \<and> distinct [''http://rf/2025-07/Cnaes.ZIP'', ''http://rf/2025-07/Empresas0.zip'']
   \<and> sorted [''http://rf/2025-07/Cnaes.ZIP'', ''http://rf/2025-07/Empresas0.zip'']
   \<and> raise_for_status 404 \<noteq> None
   \<and> (\<exists>err. fst (list_zip_links (demo_env\<lparr>http_get := \<lambda>url rng. Response 404 [] False\<rparr>)
          ''http://rf/2025-07/'' empty_world) = Inl err)
   \<and> findall_zip ''<html></html>'' = []
   \<and> (\<exists>err. fst (list_zip_links (demo_env\<lparr>http_get := \<lambda>url rng. Response 200 ''<html></html>'' False\<rparr>)
          ''http://rf/2025-07/'' empty_world) = Inl err)"
proof -
  let ?e1 = "demo_env\<lparr>http_get := \<lambda>url rng. Response 200 demo_listing False\<rparr>"
  let ?e2 = "demo_env\<lparr>http_get := \<lambda>url rng. Response 404 [] False\<rparr>"
  let ?e3 = "demo_env\<lparr>http_get := \<lambda>url rng. Response 200 ''<html></html>'' False\<rparr>"
  let ?z = "[''http://rf/2025-07/Cnaes.ZIP'', ''http://rf/2025-07/Empresas0.zip'']"
  have r1: "fst (list_zip_links ?e1 ''http://rf/2025-07/'' empty_world) = Inr ?z"
    by (simp add: net_eval demo_env_def demo_findall list_le_def list_less_def)
  from index_resolution [of ?e1 "''http://rf/2025-07/''" empty_world] r1
  have p1: "distinct ?z \<and> sorted ?z"
    by blast
  have c2: "raise_for_status 404 \<noteq> None"
    by (simp add: raise_for_status_def)
  then have "case http_get ?e2 ''http://rf/2025-07/'' None of
           NoConnection \<Rightarrow> True
         | Response st body broken \<Rightarrow>
             broken \<or> raise_for_status st \<noteq> None
             \<or> (\<exists>href\<in>set (findall_zip (response_text ?e2 body)). urljoin ?e2 ''http://rf/2025-07/'' href = None)
             \<or> findall_zip (response_text ?e2 body) = []"
    by simp
  with index_resolution [of ?e2 "''http://rf/2025-07/''" empty_world]
  have p2: "\<exists>err. fst (list_zip_links ?e2 ''http://rf/2025-07/'' empty_world) = Inl err"
    by blast
  have c3: "findall_zip ''<html></html>'' = []"
    by (simp add: net_eval)
  then have "case http_get ?e3 ''http://rf/2025-07/'' None of
           NoConnection \<Rightarrow> True
         | Response st body broken \<Rightarrow>
             broken \<or> raise_for_status st \<noteq> None
             \<or> (\<exists>href\<in>set (findall_zip (response_text ?e3 body)). urljoin ?e3 ''http://rf/2025-07/'' href = None)
             \<or> findall_zip (response_text ?e3 body) = []"
    by (simp add: demo_env_def)
  with index_resolution [of ?e3 "''http://rf/2025-07/''" empty_world]
  have p3: "\<exists>err. fst (list_zip_links ?e3 ''http://rf/2025-07/'' empty_world) = Inl err"
    by blast
  from r1 p1 c2 p2 c3 p3 show ?thesis
    by (intro conjI) simp_all
qed

text \<open>
  Claim C7 as stated fails: the listing is fetched (status 200, the body arrives whole)
  and an archive reference is found in it, \<^verbatim>\<open>//[x.zip\<close>, yet the resolver raises, for the
  reference cannot be joined to the base URL.
\<close>

theorem unjoinable_reference:
  "http_get (demo_env\<lparr>http_get := \<lambda>url rng. Response 200 bracket_listing False\<rparr>)
       ''http://rf/2025-07/'' None = Response 200 bracket_listing False
   \<and> raise_for_status 200 = None
   \<and> findall_zip (response_text demo_env bracket_listing) = [''//[x.zip'']
   \<and> list_zip_links (demo_env\<lparr>http_get := \<lambda>url rng. Response 200 bracket_listing False\<rparr>)
       ''http://rf/2025-07/'' empty_world
     = (Inl InvalidURL, \<lparr>files = Map.empty, requests = [(''http://rf/2025-07/'', None)]\<rparr>)"
  by (simp add: net_eval demo_env_def bracket_findall empty_world_def)



section \<open>Archive extractor\<close>


lemma find_filter_hd:
  "List.find P xs = (case filter P xs of [] \<Rightarrow> None | c # _ \<Rightarrow> Some c)"
  by (induction xs) auto

lemma find_append_cases:
  "List.find P (xs @ ys) = (case List.find P xs of None \<Rightarrow> List.find P ys | Some a \<Rightarrow> Some a)"
  by (induction xs) auto

lemma max_by_snoc:
  "max_by key x (xs @ [y]) =
     (if key (max_by key x xs) < key y then y else max_by key x xs)"
  by (simp add: max_by_def)

lemma max_by_greatest:
  "max_by key x xs \<in> set (x # xs) \<and> (\<forall>y \<in> set (x # xs). key y \<le> key (max_by key x xs))"
proof (induction xs rule: rev_induct)
  case Nil
  then show ?case by (simp add: max_by_def)
next
  case (snoc y xs)
  then show ?case
    by (auto simp: max_by_snoc intro: order_trans less_imp_le)
qed

lemma max_by_first:
  "List.find (\<lambda>n. key (max_by key x xs) \<le> key n) (x # xs) = Some (max_by key x xs)"
proof (induction xs rule: rev_induct)
  case Nil
  then show ?case by (simp add: max_by_def)
next
  case (snoc y xs)
  let ?m = "max_by key x xs"
  show ?case
  proof (cases "key ?m < key y")
    case True
    have "\<forall>n \<in> set (x # xs). \<not> key y \<le> key n"
      using max_by_greatest [of key x xs] True by auto
    then have "List.find (\<lambda>n. key y \<le> key n) (x # xs) = None"
      by (simp add: find_None_iff)
    then have "List.find (\<lambda>n. key y \<le> key n) ((x # xs) @ [y]) = Some y"
      by (simp only: find_append_cases) simp
    with True show ?thesis by (simp add: max_by_snoc)
  next
    case False
    have "List.find (\<lambda>n. key ?m \<le> key n) ((x # xs) @ [y]) = Some ?m"
      using snoc.IH by (simp only: find_append_cases) simp
    with False show ?thesis by (simp add: max_by_snoc)
  qed
qed

lemma max_by_find:
  "List.find (\<lambda>n. \<forall>n' \<in> set (x # xs). key n' \<le> key n) (x # xs) = Some (max_by key x xs)"
proof -
  have "(\<forall>n' \<in> set (x # xs). key n' \<le> key n) \<longleftrightarrow> key (max_by key x xs) \<le> key n" for n
    using max_by_greatest [of key x xs] by (meson order_trans)
  then show ?thesis
    using max_by_first [of key x xs] by simp
qed

lemma endswith_append: "endswith ys suf \<Longrightarrow> endswith (xs @ ys) suf"
  by (auto simp: endswith_def)

lemma endswith_self: "endswith (xs @ suf) suf"
  by (simp add: endswith_def)

lemma lower_append: "lower (xs @ ys) = lower xs @ lower ys"
  by (simp add: lower_def)

lemma lower_csv: "lower ''.csv'' = ''.csv''"
  by (simp add: lower_def lower_char_def is_upper_def)

lemma csv_base_name_nonempty: "csv_base_name m \<noteq> []"
  by (auto simp: csv_base_name_def Let_def endswith_def lower_def)

lemma csv_base_name_ends: "endswith (lower (csv_base_name m)) ''.csv''"
proof (cases "endswith (lower (path_name m)) ''.csv''")
  case True
  then show ?thesis by (simp add: csv_base_name_def)
next
  case False
  have "endswith (lower (path_name m @ ''.csv'')) ''.csv''"
    by (simp only: lower_append lower_csv endswith_self)
  with False show ?thesis by (simp add: csv_base_name_def)
qed

lemma filter_hd_mem: "filter P xs = c # cs \<Longrightarrow> c \<in> set xs \<and> P c"
  by (induction xs) (auto split: if_splits)

lemma returned_path_ends: "endswith (lower (returned_path dir m)) ''.csv''"
proof -
  have "pjoin dir (csv_base_name m) = (dir @ ''/'') @ csv_base_name m"
    using csv_base_name_nonempty [of m] by (simp add: pjoin_def)
  then have "endswith (lower (pjoin dir (csv_base_name m))) ''.csv''"
    using csv_base_name_ends [of m]
    by (simp only: lower_append endswith_append)
  moreover have "endswith (lower (add_suffix p ''.csv'')) ''.csv''" for p
    by (simp only: add_suffix_def lower_append lower_csv endswith_self)
  ultimately show ?thesis
    by (simp add: returned_path_def Let_def)
qed

lemma unzip_returns:
  assumes "unzip_single_csv e zip_path dir w = (Inr p, w')"
  shows "\<exists>zbytes ms m. files w zip_path = Some zbytes \<and> read_zip e zbytes = Some ms
           \<and> select_member ms = Inr m \<and> p = returned_path dir m"
proof -
  from assms obtain zbytes where z: "files w zip_path = Some zbytes"
    by (cases "files w zip_path") (auto simp: unzip_single_csv_def)
  from assms obtain ms where ms: "read_zip e zbytes = Some ms"
    by (cases "read_zip e zbytes") (auto simp: unzip_single_csv_def z)
  from assms obtain m where sel: "select_member ms = Inr m"
    by (cases "select_member ms") (auto simp: unzip_single_csv_def z ms)
  from assms obtain info where info: "getinfo ms m = Some info"
    by (cases "getinfo ms m") (auto simp: unzip_single_csv_def z ms sel Let_def)
  from assms have "p = returned_path dir m"
    by (simp add: unzip_single_csv_def z ms sel info Let_def returned_path_def
        split: if_splits option.splits)
  with z ms sel show ?thesis by blast
qed

text \<open>
  Claim C6 (member selection). For an archive with at least one member the extractor
  selects one member \<open>m\<close>, a name of the listing: the first name, in the order of the
  listing, that ends in \<^verbatim>\<open>csv\<close>, \<^verbatim>\<open>.csv\<close> or \<^verbatim>\<open>.txt\<close> in any letter case, if there is one;
  else the first name that contains \<^verbatim>\<open>csv\<close> in any letter case, if there is one; else the
  first name whose uncompressed size no other name exceeds. Whenever
  \<^verbatim>\<open>unzip_single_csv\<close> returns, the path it returns is the one computed from \<open>m\<close> and ends
  in \<^verbatim>\<open>.csv\<close> (in the letter case the member's own name has it, when it has it).
\<close>

theorem member_selection:
  assumes zip: "files w zip_path = Some zbytes"
      and ms: "read_zip e zbytes = Some ms"
      and ne: "ms \<noteq> []"
  shows "\<exists>m. select_member ms = Inr m
           \<and> m \<in> set (map m_name ms)
           \<and> (if \<exists>n \<in> set (map m_name ms). tabular_suffix n
                then List.find tabular_suffix (map m_name ms) = Some m
              else if \<exists>n \<in> set (map m_name ms). mentions_csv n
                then List.find mentions_csv (map m_name ms) = Some m
              else List.find (\<lambda>n. \<forall>n' \<in> set (map m_name ms). member_size ms n' \<le> member_size ms n)
                     (map m_name ms) = Some m)
           \<and> (\<forall>p w'. unzip_single_csv e zip_path dir w = (Inr p, w')
                 \<longrightarrow> p = returned_path dir m \<and> endswith (lower p) ''.csv'')"
proof -
  from ne obtain n ns where names: "map m_name ms = n # ns"
    by (cases ms) auto
  obtain m where sel: "select_member ms = Inr m"
    by (cases "filter tabular_suffix (n # ns)"; cases "filter mentions_csv (n # ns)")
       (simp_all add: select_member_def names del: filter.simps)
  have mem: "m \<in> set (map m_name ms)"
  proof -
    have "max_by (member_size ms) n ns \<in> set (n # ns)"
      using max_by_greatest [of "member_size ms" n ns] by simp
    with sel show ?thesis
      unfolding select_member_def names
      by (cases "filter tabular_suffix (n # ns)"; cases "filter mentions_csv (n # ns)")
         (auto simp del: filter.simps dest: filter_hd_mem)
  qed
  have first: "if \<exists>n \<in> set (map m_name ms). tabular_suffix n
                then List.find tabular_suffix (map m_name ms) = Some m
              else if \<exists>n \<in> set (map m_name ms). mentions_csv n
                then List.find mentions_csv (map m_name ms) = Some m
              else List.find (\<lambda>n. \<forall>n' \<in> set (map m_name ms). member_size ms n' \<le> member_size ms n)
                     (map m_name ms) = Some m"
  proof (cases "filter tabular_suffix (n # ns)")
    case (Cons c cs)
    from filter_hd_mem [OF Cons] have ex: "\<exists>n' \<in> set (n # ns). tabular_suffix n'"
      by blast
    from sel Cons have mc: "m = c"
      by (simp add: select_member_def names del: filter.simps)
    have f: "List.find tabular_suffix (n # ns) = Some c"
      by (simp only: find_filter_hd [of tabular_suffix "n # ns"] Cons list.case)
    show ?thesis
      by (simp only: names ex if_True mc f)
  next
    case Nil
    then have no1: "\<not> (\<exists>n' \<in> set (n # ns). tabular_suffix n')"
      by (simp add: filter_empty_conv del: filter.simps)
    show ?thesis
    proof (cases "filter mentions_csv (n # ns)")
      case (Cons c cs)
      from filter_hd_mem [OF Cons] have ex: "\<exists>n' \<in> set (n # ns). mentions_csv n'"
        by blast
      from sel Nil Cons have mc: "m = c"
        by (simp add: select_member_def names del: filter.simps)
      have f: "List.find mentions_csv (n # ns) = Some c"
        by (simp only: find_filter_hd [of mentions_csv "n # ns"] Cons list.case)
      show ?thesis
        by (simp only: names no1 ex if_True if_False mc f)
    next
      case Nil2: Nil
      then have no2: "\<not> (\<exists>n' \<in> set (n # ns). mentions_csv n')"
        by (simp add: filter_empty_conv del: filter.simps)
      from Nil Nil2 sel have mc: "m = max_by (member_size ms) n ns"
        by (simp add: select_member_def names del: filter.simps)
      show ?thesis
        by (simp only: names no1 no2 if_False mc max_by_find [of n ns "member_size ms"])
    qed
  qed
  have ret: "p = returned_path dir m \<and> endswith (lower p) ''.csv''"
    if "unzip_single_csv e zip_path dir w = (Inr p, w')" for p w'
    using unzip_returns [OF that] zip ms sel by (auto simp: returned_path_ends)
  from sel mem first ret show ?thesis by blast
qed


lemmas zip_eval =
  unzip_single_csv_def select_member_def tabular_suffix_def mentions_csv_def max_by_def
  member_size_def getinfo_def csv_base_name_def path_name_def path_parts_def
  extract_target_def extracted_path_def returned_path_def pjoin_def add_suffix_def
  name_suffix_def startswith_def endswith_def lower_def lower_char_def is_upper_def
  file_exists_def write_file_def unlink_def Let_def


text \<open>An archive whose payload is found by its ending and extracted under a name with
  the extension appended, and an archive where only the size decides.\<close>

theorem member_selection_witness:
  "select_member demo_members = Inr ''F.K03200$Z.D50712.MUNICCSV''
   \<and> fst (unzip_single_csv (demo_env\<lparr>read_zip := \<lambda>b. Some demo_members\<rparr>)
          ''work/zips/Municipios.zip'' ''work/csv_tmp'' demo_zip_world)
     = Inr ''work/csv_tmp/F.K03200$Z.D50712.MUNICCSV.csv''
   \<and> endswith (lower ''work/csv_tmp/F.K03200$Z.D50712.MUNICCSV.csv'') ''.csv''
   \<and> select_member demo_members_bin = Inr ''b.bin''"
proof -
  let ?e = "demo_env\<lparr>read_zip := \<lambda>b. Some demo_members\<rparr>"
  let ?e3 = "demo_env\<lparr>read_zip := \<lambda>b. Some demo_members_bin\<rparr>"
  let ?p = "''work/csv_tmp/F.K03200$Z.D50712.MUNICCSV.csv''"
  have zip: "files demo_zip_world ''work/zips/Municipios.zip'' = Some ''PK''"
    by (simp add: demo_zip_world_def)
  have ms: "read_zip ?e ''PK'' = Some demo_members" by simp
  have ne: "demo_members \<noteq> []" by (simp add: demo_members_def)
  have sel: "select_member demo_members = Inr ''F.K03200$Z.D50712.MUNICCSV''"
    by (simp add: zip_eval demo_members_def)
  have run: "fst (unzip_single_csv ?e ''work/zips/Municipios.zip'' ''work/csv_tmp'' demo_zip_world) = Inr ?p"
    by (simp add: zip_eval demo_members_def demo_zip_world_def)
  then have run': "unzip_single_csv ?e ''work/zips/Municipios.zip'' ''work/csv_tmp'' demo_zip_world
      = (Inr ?p, snd (unzip_single_csv ?e ''work/zips/Municipios.zip'' ''work/csv_tmp'' demo_zip_world))"
    by (simp add: prod_eq_iff)
  from member_selection [OF zip ms ne, of "''work/csv_tmp''"]
  obtain m where ret: "\<forall>p w'. unzip_single_csv ?e ''work/zips/Municipios.zip'' ''work/csv_tmp'' demo_zip_world
        = (Inr p, w') \<longrightarrow> p = returned_path ''work/csv_tmp'' m \<and> endswith (lower p) ''.csv''"
    by (elim exE conjE)
  from ret [rule_format, OF run'] have ends: "endswith (lower ?p) ''.csv''"
    by (rule conjunct2)
  have ms3: "read_zip ?e3 ''PK'' = Some demo_members_bin" by simp
  have ne3: "demo_members_bin \<noteq> []" by (simp add: demo_members_bin_def)
  have none3: "\<not> (\<exists>n \<in> set (map m_name demo_members_bin). tabular_suffix n)"
              "\<not> (\<exists>n \<in> set (map m_name demo_members_bin). mentions_csv n)"
    by (simp_all add: zip_eval demo_members_bin_def)
  from member_selection [OF zip ms3 ne3, of "''work/csv_tmp''"]
  obtain m3 where m3: "select_member demo_members_bin = Inr m3"
    and c3: "if \<exists>n \<in> set (map m_name demo_members_bin). tabular_suffix n
                then List.find tabular_suffix (map m_name demo_members_bin) = Some m3
              else if \<exists>n \<in> set (map m_name demo_members_bin). mentions_csv n
                then List.find mentions_csv (map m_name demo_members_bin) = Some m3
              else List.find (\<lambda>n. \<forall>n' \<in> set (map m_name demo_members_bin).
                                 member_size demo_members_bin n' \<le> member_size demo_members_bin n)
                     (map m_name demo_members_bin) = Some m3"
    by (elim exE conjE)
  from c3 have "List.find (\<lambda>n. \<forall>n' \<in> set (map m_name demo_members_bin).
                                 member_size demo_members_bin n' \<le> member_size demo_members_bin n)
                     (map m_name demo_members_bin) = Some m3"
    by (simp only: none3 if_False)
  then have "m3 = ''b.bin''"
    by (simp add: member_size_def getinfo_def demo_members_bin_def)
  with m3 have sel3: "select_member demo_members_bin = Inr ''b.bin''" by simp
  from sel run ends sel3 show ?thesis by (intro conjI)
qed



section \<open>Resumable fetcher\<close>


lemma concat_filter_nonempty: "concat (filter (\<lambda>c. c \<noteq> []) xss) = concat xss"
  by (induction xss) auto

lemma concat_iter_content: "concat (filter (\<lambda>c. c \<noteq> []) (iter_content n body False)) = body"
  by (simp only: iter_content_def concat_filter_nonempty concat_chunks_of if_False)

lemma concat_iter_content_broken:
  "concat (filter (\<lambda>c. c \<noteq> []) (iter_content n body True)) = take (length body div n * n) body"
  by (simp only: iter_content_def concat_filter_nonempty concat_chunks_of if_True)

lemma part_neq: "add_suffix dest ''.part'' \<noteq> dest" "dest \<noteq> add_suffix dest ''.part''"
  by (simp_all add: add_suffix_def)

text \<open>What \<^verbatim>\<open>download_file\<close> does when the server answers, the status is no error and
  the body arrives whole.\<close>

lemma download_file_answer:
  assumes "http_get e url (if old = [] then None else Some (length old)) = Response status body False"
      and "raise_for_status status = None"
      and "old = (case files w (add_suffix dest ''.part'') of Some b \<Rightarrow> b | None \<Rightarrow> [])"
  shows "download_file e url dest w =
     (Inr dest,
      unlink (add_suffix dest ''.part'')
        (write_file dest (old @ body)
          (write_file (add_suffix dest ''.part'') (old @ body)
            (log_request url (if old = [] then None else Some (length old)) w))))"
proof -
  have r: "(if 0 < length old then Some (length old) else None) = (if old = [] then None else Some (length old))"
    by simp
  show ?thesis
    unfolding download_file_def Let_def assms(3) [symmetric] r assms(1)
    by (simp add: assms(2) concat_iter_content)
qed

text \<open>What it does when the connection breaks: the exception, and a partial file that
  has grown by the pieces that arrived whole.\<close>

lemma download_file_broken:
  assumes "http_get e url (if old = [] then None else Some (length old)) = Response status body True"
      and "raise_for_status status = None"
      and "old = (case files w (add_suffix dest ''.part'') of Some b \<Rightarrow> b | None \<Rightarrow> [])"
  shows "download_file e url dest w =
     (Inl ConnectionError,
      write_file (add_suffix dest ''.part'')
        (old @ take (length body div DOWNLOAD_CHUNK * DOWNLOAD_CHUNK) body)
        (log_request url (if old = [] then None else Some (length old)) w))"
proof -
  have r: "(if 0 < length old then Some (length old) else None) = (if old = [] then None else Some (length old))"
    by simp
  show ?thesis
    unfolding download_file_def Let_def assms(3) [symmetric] r assms(1)
    by (simp add: assms(2) concat_iter_content_broken)
qed

text \<open>
  Claim C10 (the body of a ranged request is appended unseen). When a partial file of
  \<open>k > 0\<close> bytes exists, \<^verbatim>\<open>download_file\<close> asks for the bytes from offset \<open>k\<close> on, and
  for every answer whose status is no error (200 as well as 206) it appends the body to
  the partial file and renames it: the completed file is the \<open>k\<close> partial bytes followed
  by the body, of length \<open>k\<close> plus the length of the body, and no partial file is left.
\<close>

theorem range_request_body_appended:
  assumes part: "files w (add_suffix dest ''.part'') = Some partial"
      and k: "0 < length partial"
      and resp: "http_get e url (Some (length partial)) = Response status body False"
      and ok: "raise_for_status status = None"
  shows "fst (download_file e url dest w) = Inr dest
       \<and> requests (snd (download_file e url dest w)) = requests w @ [(url, Some (length partial))]
       \<and> files (snd (download_file e url dest w)) dest = Some (partial @ body)
       \<and> files (snd (download_file e url dest w)) (add_suffix dest ''.part'') = None
       \<and> length (partial @ body) = length partial + length body"
proof -
  let ?tmp = "add_suffix dest ''.part''"
  from k have ne: "(partial = []) = False" by auto
  have old: "partial = (case files w ?tmp of Some b \<Rightarrow> b | None \<Rightarrow> [])"
    by (simp only: part option.case)
  have resp': "http_get e url (if partial = [] then None else Some (length partial))
      = Response status body False"
    using resp by (simp only: ne if_False)
  have run: "download_file e url dest w =
      (Inr dest,
       unlink ?tmp (write_file dest (partial @ body)
         (write_file ?tmp (partial @ body) (log_request url (Some (length partial)) w))))"
    using download_file_answer [OF resp' ok old] by (simp only: ne if_False)
  have a: "fst (download_file e url dest w) = Inr dest"
    unfolding run by simp
  have b: "requests (snd (download_file e url dest w)) = requests w @ [(url, Some (length partial))]"
    unfolding run by (simp add: unlink_def write_file_def log_request_def)
  have c: "files (snd (download_file e url dest w)) dest = Some (partial @ body)"
    unfolding run by (simp add: unlink_def write_file_def log_request_def part_neq)
  have d: "files (snd (download_file e url dest w)) ?tmp = None"
    unfolding run by (simp add: unlink_def write_file_def log_request_def)
  from a b c d show ?thesis by simp
qed



lemmas fetch_eval =
  download_file_def iter_content_def DOWNLOAD_CHUNK_def chunks_of_short raise_for_status_def
  add_suffix_def write_file_def unlink_def log_request_def Let_def empty_world_def
  demo_stream_def ranged_server_def plain_server_def cut_server_def



text \<open>What an interrupted fetch leaves: the pieces of 1 MiB that arrived whole. A stream
  of six bytes cut after two leaves an empty partial file, and the re-run starts over
  without a range.\<close>

lemma interrupted_fetch_example:
  "download_file (demo_env\<lparr>http_get := cut_server 2\<rparr>) ''http://rf/Cnaes.zip''
     ''work/zips/Cnaes.zip'' empty_world
   = (Inl ConnectionError,
      \<lparr>files = [''work/zips/Cnaes.zip.part'' \<mapsto> []], requests = [(''http://rf/Cnaes.zip'', None)]\<rparr>)"
  by (simp add: fetch_eval)

text \<open>A partial file of two bytes and a server that answers the ranged request with status
  200 and the whole stream of six bytes: the completed file has eight.\<close>

theorem range_request_body_appended_witness:
  "files \<lparr>files = [''work/zips/Cnaes.zip.part'' \<mapsto> ''AB''], requests = []\<rparr>
      (add_suffix ''work/zips/Cnaes.zip'' ''.part'') = Some ''AB''
   \<and> raise_for_status 200 = None
   \<and> fst (download_file (demo_env\<lparr>http_get := plain_server\<rparr>) ''http://rf/Cnaes.zip''
          ''work/zips/Cnaes.zip''
          \<lparr>files = [''work/zips/Cnaes.zip.part'' \<mapsto> ''AB''], requests = []\<rparr>) = Inr ''work/zips/Cnaes.zip''
   \<and> requests (snd (download_file (demo_env\<lparr>http_get := plain_server\<rparr>) ''http://rf/Cnaes.zip''
          ''work/zips/Cnaes.zip''
          \<lparr>files = [''work/zips/Cnaes.zip.part'' \<mapsto> ''AB''], requests = []\<rparr>))
       = [(''http://rf/Cnaes.zip'', Some 2)]
   \<and> files (snd (download_file (demo_env\<lparr>http_get := plain_server\<rparr>) ''http://rf/Cnaes.zip''
          ''work/zips/Cnaes.zip''
          \<lparr>files = [''work/zips/Cnaes.zip.part'' \<mapsto> ''AB''], requests = []\<rparr>)) ''work/zips/Cnaes.zip''
       = Some ''ABABCDEF''
   \<and> length ''ABABCDEF'' = length ''AB'' + length demo_stream"
proof -
  let ?e = "demo_env\<lparr>http_get := plain_server\<rparr>"
  let ?w = "\<lparr>files = [''work/zips/Cnaes.zip.part'' \<mapsto> ''AB''], requests = []\<rparr>"
  have part: "files ?w (add_suffix ''work/zips/Cnaes.zip'' ''.part'') = Some ''AB''"
    by (simp add: add_suffix_def)
  have k: "0 < length ''AB''" by simp
  have resp: "http_get ?e ''http://rf/Cnaes.zip'' (Some (length ''AB'')) = Response 200 demo_stream False"
    by (simp add: plain_server_def)
  have ok: "raise_for_status 200 = None"
    by (simp add: raise_for_status_def)
  from range_request_body_appended [OF part k resp ok] part ok
  show ?thesis
    by (simp add: demo_stream_def add_suffix_def)
qed



section \<open>Ingestion orchestrator\<close>

lemma process_one_zip_skip:
  "file_exists w (parquet_path_of out zip_url) \<Longrightarrow>
   process_one_zip e conv zip_url work out kz kc w = (None, w)"
  by (simp add: process_one_zip_def Let_def)

lemma all_skipped:
  "\<forall>z\<in>set zs. file_exists w (parquet_path_of out z) \<Longrightarrow>
   foldl (\<lambda>w0 zip_url. snd (process_one_zip e conv zip_url work out kz kc w0)) w zs = w"
  by (induction zs) (simp_all add: process_one_zip_skip)

lemma file_exists_log_request: "file_exists (log_request url rng w) p = file_exists w p"
  by (simp add: file_exists_def log_request_def)

text \<open>
  Claim C4 (idempotence), as amended. Per archive: when the target artifact exists,
  \<^verbatim>\<open>process_one_zip\<close> returns at once and leaves the world as it is, so nothing is
  downloaded, extracted or converted. For the whole pipeline: a run that finds the
  artifact of every archive it selects (as a first run that converted them all has left
  them) changes no file, and its network activity is exactly one request, the one for
  the listing, which \<^verbatim>\<open>main\<close> makes on every run.
\<close>

theorem idempotent_skip:
  "(file_exists w (parquet_path_of out zip_url) \<longrightarrow>
      process_one_zip e conv zip_url work out kz kc w = (None, w))
   \<and> (\<forall>zips selected.
        fst (list_zip_links e (base_url a) w) = Inr zips
        \<and> selected_zips e a zips = Inr selected
        \<and> (\<forall>z\<in>set selected. file_exists w (parquet_path_of (out_dir a) z))
        \<longrightarrow> fst (main e conv a w) = None
            \<and> files (snd (main e conv a w)) = files w
            \<and> requests (snd (main e conv a w)) = requests w @ [(base_url a, None)])"
proof -
  have run: "main e conv a w = (None, log_request (base_url a) None w)"
    if l: "fst (list_zip_links e (base_url a) w) = Inr zips"
      and s: "selected_zips e a zips = Inr selected"
      and p: "\<forall>z\<in>set selected. file_exists w (parquet_path_of (out_dir a) z)"
    for zips selected
  proof -
    from l list_zip_links_world [of e "base_url a" w]
    have lz: "list_zip_links e (base_url a) w = (Inr zips, log_request (base_url a) None w)"
      by (cases "list_zip_links e (base_url a) w") simp
    from p have "\<forall>z\<in>set selected.
        file_exists (log_request (base_url a) None w) (parquet_path_of (out_dir a) z)"
      by (simp add: file_exists_log_request)
    from all_skipped [OF this] show ?thesis
      by (simp add: main_def lz s)
  qed
  show ?thesis
    by (auto simp: process_one_zip_skip run log_request_def)
qed

text \<open>A listing of two archives and an output directory that holds the artifacts of both.\<close>

theorem idempotent_skip_witness:
  "file_exists done_world (parquet_path_of ''parquet'' ''http://rf/2025-07/Cnaes.ZIP'')
   \<and> process_one_zip listing_env csv_to_parquet ''http://rf/2025-07/Cnaes.ZIP'' ''work'' ''parquet''
        False False done_world = (None, done_world)
   \<and> fst (list_zip_links listing_env (base_url demo_args) done_world)
        = Inr [''http://rf/2025-07/Cnaes.ZIP'', ''http://rf/2025-07/Empresas0.zip'']
   \<and> selected_zips listing_env demo_args
        [''http://rf/2025-07/Cnaes.ZIP'', ''http://rf/2025-07/Empresas0.zip'']
        = Inr [''http://rf/2025-07/Cnaes.ZIP'', ''http://rf/2025-07/Empresas0.zip'']
   \<and> fst (main listing_env csv_to_parquet demo_args done_world) = None
   \<and> files (snd (main listing_env csv_to_parquet demo_args done_world)) = files done_world
   \<and> requests (snd (main listing_env csv_to_parquet demo_args done_world))
        = [(''http://rf/2025-07/'', None)]"
proof -
  let ?z = "[''http://rf/2025-07/Cnaes.ZIP'', ''http://rf/2025-07/Empresas0.zip'']"
  have p1: "parquet_path_of ''parquet'' ''http://rf/2025-07/Cnaes.ZIP'' = ''parquet/Cnaes.parquet''"
    by (simp add: path_eval)
  have p2: "parquet_path_of ''parquet'' ''http://rf/2025-07/Empresas0.zip'' = ''parquet/Empresas0.parquet''"
    by (simp add: path_eval)
  have ex: "\<forall>z\<in>set ?z. file_exists done_world (parquet_path_of (out_dir demo_args) z)"
    by (simp add: p1 p2 demo_args_def done_world_def file_exists_def)
  have ex1: "file_exists done_world (parquet_path_of ''parquet'' ''http://rf/2025-07/Cnaes.ZIP'')"
    by (simp add: p1 done_world_def file_exists_def)
  have l: "fst (list_zip_links listing_env (base_url demo_args) done_world) = Inr ?z"
    by (simp add: net_eval listing_env_def demo_env_def demo_findall list_le_def list_less_def
        demo_args_def)
  have s: "selected_zips listing_env demo_args ?z = Inr ?z"
    by (simp add: selected_zips_def demo_args_def)
  have r: "requests done_world = []" "base_url demo_args = ''http://rf/2025-07/''"
    by (simp_all add: done_world_def demo_args_def)
  from idempotent_skip [of done_world "''parquet''" "''http://rf/2025-07/Cnaes.ZIP''"
      listing_env csv_to_parquet "''work''" False False demo_args] ex ex1 l s r
  show ?thesis
    by auto
qed

text \<open>
  Claim C4 as stated fails: a run that finds every artifact in place, as the second run
  does, still asks the server for the listing, since \<^verbatim>\<open>main\<close> resolves the index before
  it looks at any artifact.
\<close>

theorem second_run_lists_again:
  "main listing_env csv_to_parquet_with_duckdb demo_args done_world
     = (None, done_world\<lparr>requests := [(''http://rf/2025-07/'', None)]\<rparr>)
   \<and> requests done_world = []"
  by (simp add: main_def net_eval listing_env_def demo_env_def demo_findall list_le_def
      list_less_def demo_args_def selected_zips_def process_one_zip_def path_eval
      done_world_def file_exists_def)



section \<open>Encoding normalizer\<close>



lemma utf8_encode_bytes: "\<forall>c \<in> set cs. c < 256 \<Longrightarrow> \<forall>b \<in> set (utf8_encode cs). b < 256"
proof (induction cs)
  case Nil
  then show ?case by (simp add: utf8_encode_def)
next
  case (Cons c cs)
  have "c div 64 < 4" using Cons.prems less_mult_imp_div_less [of c 4 64] by simp
  with Cons show ?case
    by (auto simp: utf8_encode_def utf8_encode_char_def)
qed

lemma byte_values_small: "\<forall>b \<in> set (byte_values s). b < 256"
  by (simp add: byte_values_def)

lemma byte_values_bytes_of: "\<forall>b \<in> set vs. b < 256 \<Longrightarrow> byte_values (bytes_of vs) = vs"
  by (induction vs) (simp_all add: byte_values_def bytes_of_def)

lemma take_line_parts: "take_line s = (l, r) \<Longrightarrow> l @ r = s \<and> (s \<noteq> [] \<longrightarrow> l \<noteq> [])"
proof (induction s arbitrary: l r)
  case Nil
  then show ?case by simp
next
  case (Cons c cs)
  show ?case
  proof (cases "c = CHR 0x0A")
    case True
    with Cons.prems show ?thesis by auto
  next
    case nl: False
    show ?thesis
    proof (cases "c = CHR 0x0D")
      case True
      with nl Cons.prems show ?thesis by (cases cs) (auto split: if_splits)
    next
      case False
      obtain l' r' where t: "take_line cs = (l', r')" by (cases "take_line cs")
      from Cons.IH [OF t] have "l' @ r' = cs" by simp
      with nl False t Cons.prems show ?thesis by auto
    qed
  qed
qed

lemma concat_lines_of: "concat (lines_of s) = s"
proof (induction s rule: lines_of.induct)
  case (1 s)
  show ?case
  proof (cases "s = []")
    case True
    then show ?thesis by (subst lines_of.simps) simp
  next
    case False
    obtain l r where t: "take_line s = (l, r)" by (cases "take_line s")
    from take_line_parts [OF t] False have p: "l @ r = s" and lne: "l \<noteq> []" by simp_all
    from p [symmetric] lne have len: "length r < length s" by (cases l) auto
    from 1 [OF False t [symmetric] len] have "concat (lines_of r) = r" .
    with False t len p show ?thesis
      by (subst lines_of.simps) simp
  qed
qed

lemma take_batch_parts:
  "take_batch hint n ls = (b, r) \<Longrightarrow> b @ r = ls \<and> (ls \<noteq> [] \<longrightarrow> b \<noteq> [])"
  by (induction ls arbitrary: n b r) (auto split: if_splits prod.splits)

lemma copy_batches_concat: "copy_batches hint ls = concat ls"
proof (induction hint ls rule: copy_batches.induct)
  case (1 hint ls)
  obtain b r where t: "take_batch hint 0 ls = (b, r)" by (cases "take_batch hint 0 ls")
  from take_batch_parts [OF t] have p: "b @ r = ls" and ne: "ls \<noteq> [] \<longrightarrow> b \<noteq> []" by simp_all
  show ?case
  proof (cases "b = []")
    case True
    with p ne t show ?thesis by (subst copy_batches.simps) auto
  next
    case False
    with p [symmetric] have len: "length r < length ls" by (cases b) auto
    from 1 [OF t [symmetric] False len] have "copy_batches hint r = concat r" .
    with False len t p show ?thesis
      by (subst copy_batches.simps) auto
  qed
qed


lemma transcode_bytes: "byte_values (transcode content) = utf8_encode (byte_values content)"
proof -
  have c: "copy_batches READLINES_HINT (lines_of content) = content"
    by (simp add: copy_batches_concat concat_lines_of)
  have "byte_values (bytes_of (utf8_encode (byte_values content))) = utf8_encode (byte_values content)"
    by (rule byte_values_bytes_of) (rule utf8_encode_bytes, rule byte_values_small)
  then show ?thesis
    by (simp add: transcode_def c)
qed









end
